(* ===== verification/Prelude.thy ===== *)
theory Prelude
  imports "HOL-Library.Word" "HOL-Library.Monad_Syntax"
begin

unbundle bit_operations_syntax

text \<open>
  The vocabulary every component theory shares: bytes and 32-bit words, the panic monad
  (\<open>'a option\<close>, where \<open>None\<close> is a Go run-time panic), Go byte slices over a backing
  array, little-endian access, and 64-bit \<open>int\<close> arithmetic with its wrap-around.
\<close>

section \<open>Types\<close>

type_synonym byte = "8 word"
type_synonym bytes = "byte list"
type_synonym u32 = "32 word"

text \<open>
  A computation that may panic: \<open>Some x\<close> is a normal return, \<open>None\<close> a panic (an index
  or slice bound out of range, \<open>make\<close> with a negative length). Nothing in the program
  recovers, so a panic ends the process.
\<close>

type_synonym 'a go = "'a option"

named_theorems go_defs \<comment> \<open>unfolding of the Go primitives below\<close>

section \<open>64-bit int\<close>

text \<open>Go's \<open>int\<close> on the 64-bit targets: the mathematical value wrapped into
  \<open>-2^63 .. 2^63 - 1\<close>.\<close>

definition wrap64 :: "int \<Rightarrow> int" where
  "wrap64 x = (x + 2 ^ 63) mod 2 ^ 64 - 2 ^ 63"

lemma wrap64_id [simp]: "- (2 ^ 63) \<le> x \<Longrightarrow> x < 2 ^ 63 \<Longrightarrow> wrap64 x = x"
  by (simp add: wrap64_def)

lemma wrap64_range: "- (2 ^ 63) \<le> wrap64 x \<and> wrap64 x < 2 ^ 63"
  unfolding wrap64_def by (simp add: le_diff_eq diff_less_eq)

section \<open>Slices\<close>

text \<open>
  A Go byte slice: the backing array from the slice's first element up to its capacity,
  and the length. Reslicing is bounded by the capacity, not by the length, so the bytes
  between the two can be reached (the UDP loops reuse one 65535-byte buffer).
\<close>

record gslice =
  arr :: bytes
  slen :: nat

definition wf_slice :: "gslice \<Rightarrow> bool" where
  "wf_slice s \<longleftrightarrow> slen s \<le> length (arr s)"

definition view :: "gslice \<Rightarrow> bytes" where
  "view s = take (slen s) (arr s)"

definition fresh :: "bytes \<Rightarrow> gslice" where
  "fresh bs = \<lparr>arr = bs, slen = length bs\<rparr>"

text \<open>\<open>make([]byte, n)\<close>.\<close>

definition make_bytes :: "int \<Rightarrow> gslice go" where
  "make_bytes n = (if n < 0 then None else Some (fresh (replicate (nat n) 0)))"

text \<open>\<open>s[lo:hi]\<close>.\<close>

definition subslice :: "gslice \<Rightarrow> int \<Rightarrow> int \<Rightarrow> gslice go" where
  "subslice s lo hi =
     (if 0 \<le> lo \<and> lo \<le> hi \<and> hi \<le> int (length (arr s))
      then Some \<lparr>arr = drop (nat lo) (arr s), slen = nat (hi - lo)\<rparr> else None)"

text \<open>\<open>s[lo:]\<close>.\<close>

definition slice_from :: "gslice \<Rightarrow> int \<Rightarrow> gslice go" where
  "slice_from s lo = subslice s lo (int (slen s))"

text \<open>A subslice taken at \<open>lo\<close> shares the backing array: after writes through it, the
  parent reads as follows.\<close>

definition store_sub :: "gslice \<Rightarrow> int \<Rightarrow> gslice \<Rightarrow> gslice" where
  "store_sub s lo d = s\<lparr>arr := take (nat lo) (arr s) @ arr d\<rparr>"

text \<open>\<open>copy(dst, src)\<close>.\<close>

definition copy_into :: "gslice \<Rightarrow> bytes \<Rightarrow> gslice" where
  "copy_into d src =
     (let n = min (slen d) (length src) in d\<lparr>arr := take n src @ drop n (arr d)\<rparr>)"

section \<open>Little-endian 32-bit access\<close>

definition le32_of :: "byte \<Rightarrow> byte \<Rightarrow> byte \<Rightarrow> byte \<Rightarrow> u32" where
  "le32_of b0 b1 b2 b3 =
     ucast b0 OR push_bit 8 (ucast b1)
     OR push_bit 16 (ucast b2) OR push_bit 24 (ucast b3)"

definition le32_bytes :: "u32 \<Rightarrow> bytes" where
  "le32_bytes v =
     [ucast v, ucast (drop_bit 8 v),
      ucast (drop_bit 16 v), ucast (drop_bit 24 v)]"

text \<open>\<open>binary.LittleEndian.Uint32\<close> and \<open>PutUint32\<close>: they touch \<open>b[3]\<close>, so a slice
  shorter than four bytes panics.\<close>

definition get32 :: "gslice \<Rightarrow> u32 go" where
  "get32 s = (if slen s < 4 then None
     else Some (le32_of (arr s ! 0) (arr s ! 1) (arr s ! 2) (arr s ! 3)))"

definition put32 :: "gslice \<Rightarrow> u32 \<Rightarrow> gslice go" where
  "put32 s v = (if slen s < 4 then None
     else Some (s\<lparr>arr := le32_bytes v @ drop 4 (arr s)\<rparr>))"

lemmas slice_defs [go_defs] =
  make_bytes_def subslice_def slice_from_def store_sub_def copy_into_def
  get32_def put32_def fresh_def

lemma length_le32_bytes [simp]: "length (le32_bytes v) = 4"
  by (simp add: le32_bytes_def)

lemma byte_bit: "bit (b :: byte) n \<Longrightarrow> n < 8"
  using bit_imp_le_length [of b n] by simp

lemma bit_le32_of:
  "bit (le32_of b0 b1 b2 b3) n \<longleftrightarrow>
     (if n < 8 then bit b0 n else if n < 16 then bit b1 (n - 8)
      else if n < 24 then bit b2 (n - 16) else n < 32 \<and> bit b3 (n - 24))"
  unfolding le32_of_def bit_or_iff bit_push_bit_iff Word.bit_ucast_iff
  by (auto dest: byte_bit)

lemma le32_of_bytes:
  "le32_of (ucast v) (ucast (drop_bit 8 v)) (ucast (drop_bit 16 v)) (ucast (drop_bit 24 v)) = v"
  by (rule bit_word_eqI) (auto simp: bit_le32_of Word.bit_ucast_iff bit_drop_bit_eq)

lemma bytes_of_le32 [simp]:
  "ucast (le32_of b0 b1 b2 b3) = b0"
  "ucast (drop_bit 8 (le32_of b0 b1 b2 b3)) = b1"
  "ucast (drop_bit 16 (le32_of b0 b1 b2 b3)) = b2"
  "ucast (drop_bit 24 (le32_of b0 b1 b2 b3)) = b3"
  by (rule bit_word_eqI; simp add: Word.bit_ucast_iff bit_drop_bit_eq bit_le32_of)+

text \<open>The first four bytes of a message as its little-endian header word.\<close>

definition head32 :: "bytes \<Rightarrow> u32" where
  "head32 bs = le32_of (bs ! 0) (bs ! 1) (bs ! 2) (bs ! 3)"

lemma head32_le32_bytes [simp]: "head32 (le32_bytes v @ bs) = v"
  by (simp add: head32_def le32_bytes_def le32_of_bytes)

lemma le32_bytes_head32:
  assumes "4 \<le> length bs"
  shows "le32_bytes (head32 bs) @ drop 4 bs = bs"
proof -
  from assms obtain b0 b1 b2 b3 r where "bs = b0 # b1 # b2 # b3 # r"
    by (auto simp: numeral_eq_Suc Suc_le_length_iff)
  then show ?thesis by (simp add: head32_def le32_bytes_def)
qed

lemma head32_take [simp]: "4 \<le> n \<Longrightarrow> head32 (take n bs) = head32 bs"
  by (simp add: head32_def)

section \<open>Views of slices\<close>

lemma length_view [simp]: "wf_slice s \<Longrightarrow> length (view s) = slen s"
  by (simp add: wf_slice_def view_def)

lemma view_fresh [simp]: "view (fresh bs) = bs"
  by (simp add: view_def fresh_def)

lemma wf_fresh [simp]: "wf_slice (fresh bs)"
  by (simp add: wf_slice_def fresh_def)

lemma slen_fresh [simp]: "slen (fresh bs) = length bs"
  by (simp add: fresh_def)

text \<open>The normal form of a well-formed slice: its contents and the rest of the backing
  array. The lemmas below rewrite the primitives on this form.\<close>

definition gs :: "bytes \<Rightarrow> bytes \<Rightarrow> gslice" where
  "gs bs rest = \<lparr>arr = bs @ rest, slen = length bs\<rparr>"

named_theorems gs_simps \<comment> \<open>the slice primitives on normal forms\<close>

lemma gs_sel [gs_simps]:
  "arr (gs bs rest) = bs @ rest" "slen (gs bs rest) = length bs"
  "view (gs bs rest) = bs" "wf_slice (gs bs rest)" "fresh bs = gs bs []"
  by (simp_all add: gs_def view_def wf_slice_def fresh_def)

lemma gs_cases:
  assumes "wf_slice s"
  obtains bs rest where "s = gs bs rest" "bs = view s"
proof (rule that)
  show "s = gs (view s) (drop (slen s) (arr s))"
    using assms by (simp add: gs_def view_def wf_slice_def)
qed simp

lemma gs_make: "make_bytes (int n) = Some (gs (replicate n 0) [])"
  by (simp add: make_bytes_def gs_def fresh_def)

lemma gs_subslice [gs_simps]:
  assumes "0 \<le> lo" "lo \<le> hi" "hi \<le> int (length bs)"
  shows "subslice (gs bs rest) lo hi =
    Some (gs (take (nat (hi - lo)) (drop (nat lo) bs)) (drop (nat hi) bs @ rest))"
proof -
  have "nat hi = nat (hi - lo) + nat lo" using assms by simp
  then have "take (nat (hi - lo)) (drop (nat lo) bs) @ drop (nat hi) bs = drop (nat lo) bs"
    using append_take_drop_id [of "nat (hi - lo)" "drop (nat lo) bs"] by simp
  then have "drop (nat lo) (bs @ rest) =
      take (nat (hi - lo)) (drop (nat lo) bs) @ drop (nat hi) bs @ rest"
    using assms by (simp flip: append_assoc)
  then show ?thesis
    using assms by (simp add: subslice_def gs_def)
qed

lemma gs_subslice_short [gs_simps]:
  "int (length bs + length rest) < hi \<Longrightarrow> subslice (gs bs rest) lo hi = None"
  by (simp add: subslice_def gs_def)

lemma gs_slice_from [gs_simps]:
  "slice_from (gs bs rest) lo =
     (if 0 \<le> lo \<and> lo \<le> int (length bs) then Some (gs (drop (nat lo) bs) rest) else None)"
  by (auto simp: slice_from_def subslice_def gs_def)

lemma gs_get32 [gs_simps]:
  "get32 (gs bs rest) = (if length bs < 4 then None else Some (head32 bs))"
  by (simp add: get32_def gs_def head32_def nth_append)

lemma gs_put32 [gs_simps]:
  "put32 (gs bs rest) v = (if length bs < 4 then None else Some (gs (le32_bytes v @ drop 4 bs) rest))"
  by (simp add: put32_def gs_def)

lemma gs_copy_into [gs_simps]:
  "copy_into (gs bs rest) src = gs (take (length bs) src @ drop (length src) bs) rest"
  by (simp add: copy_into_def gs_def Let_def min_def)

text \<open>Writing a subslice back: it covers the bytes from \<open>lo\<close> on, and what follows it in
  the backing array is what followed it before.\<close>

lemma gs_store_sub [gs_simps]:
  "0 \<le> lo \<Longrightarrow> nat lo + length d \<le> length bs \<Longrightarrow> rest' = drop (nat lo + length d) bs @ rest \<Longrightarrow>
     store_sub (gs bs rest) lo (gs d rest') =
       gs (take (nat lo) bs @ d @ drop (nat lo + length d) bs) rest"
  by (simp add: store_sub_def gs_def)

end
