(* ===== verification/Proxy_Sessions.thy ===== *)
theory Proxy_Sessions
  imports Prelude "HOL-Library.AList"
begin

text \<open>
  Package \<open>proxy\<close>, file \<open>sessions.go\<close>: the session table of the server-mode proxy. The two
  maps of the table hold pointers to the same session objects, and the code relies on that
  aliasing (a session stays reachable by index when it is replaced by address), so the
  sessions live in an explicit store and the maps hold positions in it. Every method runs
  under the table's mutex, so it is one atomic step; \<open>time.Now()\<close> is the argument \<open>now\<close>,
  in nanoseconds. A UDP address is represented by its \<open>String()\<close>, which is the key the
  table uses.
\<close>

type_synonym addr = string
type_synonym key = bytes

record session =
  s_addr :: addr
  s_clientIndex :: u32
  s_pub :: key
  s_pubKnown :: bool
  s_lastSeen :: "int option"     \<comment> \<open>\<open>None\<close>: the zero \<open>time.Time\<close>\<close>

record table =
  store :: "session list"          \<comment> \<open>the session objects; a pointer is a position\<close>
  byAddr :: "(addr \<times> nat) list"     \<comment> \<open>\<open>map[string]*session\<close>\<close>
  byIndex :: "u32 \<rightharpoonup> nat"          \<comment> \<open>\<open>map[uint32]*session\<close>\<close>
  ttl :: int

text \<open>The zero value of \<open>[32]byte\<close>.\<close>

definition zero_key :: key where "zero_key = replicate 32 0"

section \<open>Operations\<close>

definition newTable :: "int \<Rightarrow> table" where
  "newTable t = \<lparr>store = [], byAddr = [], byIndex = Map.empty, ttl = t\<rparr>"

text \<open>\<open>getLocked\<close>: the session of an address, created on first use; the pointer and the
  table.\<close>

definition getLocked :: "table \<Rightarrow> addr \<Rightarrow> nat \<times> table" where
  "getLocked t a =
     (case map_of (byAddr t) a of
        Some p \<Rightarrow> (p, t)
      | None \<Rightarrow>
          let p = length (store t);
              s = \<lparr>s_addr = a, s_clientIndex = 0, s_pub = zero_key, s_pubKnown = False,
                   s_lastSeen = None\<rparr>
          in (p, t\<lparr>store := store t @ [s], byAddr := AList.update a p (byAddr t)\<rparr>))"

text \<open>A write through a session pointer.\<close>

definition upd :: "table \<Rightarrow> nat \<Rightarrow> (session \<Rightarrow> session) \<Rightarrow> table" where
  "upd t p f = t\<lparr>store := (store t)[p := f (store t ! p)]\<rparr>"

definition clientInit :: "table \<Rightarrow> addr \<Rightarrow> u32 \<Rightarrow> int \<Rightarrow> table" where
  "clientInit t a clientIndex now =
     (let (p, t) = getLocked t a;
          t = upd t p (\<lambda>s. s\<lparr>s_clientIndex := clientIndex, s_lastSeen := Some now\<rparr>)
      in t\<lparr>byIndex := (byIndex t)(clientIndex \<mapsto> p)\<rparr>)"

definition clientTraffic :: "table \<Rightarrow> addr \<Rightarrow> int \<Rightarrow> table" where
  "clientTraffic t a now =
     (let (p, t) = getLocked t a in upd t p (\<lambda>s. s\<lparr>s_lastSeen := Some now\<rparr>))"

definition setPub :: "table \<Rightarrow> addr \<Rightarrow> key \<Rightarrow> table" where
  "setPub t a pub =
     (let (p, t) = getLocked t a in upd t p (\<lambda>s. s\<lparr>s_pub := pub, s_pubKnown := True\<rparr>))"

definition responseTargets ::
  "table \<Rightarrow> u32 \<Rightarrow> key list \<Rightarrow> bool \<Rightarrow> int \<Rightarrow> (addr \<times> key list) option \<times> table" where
  "responseTargets t clientIndex cands needPub now =
     (case byIndex t clientIndex of
        None \<Rightarrow> (None, t)
      | Some p \<Rightarrow>
          let t = upd t p (\<lambda>s. s\<lparr>s_lastSeen := Some now\<rparr>);
              s = store t ! p
          in (Some (if \<not> needPub then (s_addr s, [zero_key])
                    else if s_pubKnown s then (s_addr s, [s_pub s])
                    else if cands = [] then (s_addr s, [zero_key])
                    else (s_addr s, cands)), t))"

text \<open>\<open>now.Sub(lastSeen)\<close>: on the zero time it saturates at the largest duration.\<close>

definition since :: "int \<Rightarrow> int option \<Rightarrow> int" where
  "since now seen = (case seen of None \<Rightarrow> 2 ^ 63 - 1 | Some t \<Rightarrow> now - t)"

text \<open>\<open>gc\<close> ranges over \<open>byAddr\<close> in Go's unspecified map order while deleting from both
  maps: \<open>gc_loop\<close> visits the entries in the order of its argument.\<close>

definition expired :: "table \<Rightarrow> int \<Rightarrow> nat \<Rightarrow> bool" where
  "expired t now p \<longleftrightarrow> since now (s_lastSeen (store t ! p)) > ttl t"

fun gc_loop :: "int \<Rightarrow> (addr \<times> nat) list \<Rightarrow> table \<Rightarrow> table" where
  "gc_loop now [] t = t"
| "gc_loop now ((k, p) # es) t =
     gc_loop now es
       (if expired t now p
        then t\<lparr>byAddr := AList.delete k (byAddr t),
               byIndex := (byIndex t)(s_clientIndex (store t ! p) := None)\<rparr>
        else t)"

definition gc :: "table \<Rightarrow> int \<Rightarrow> table" where
  "gc t now = gc_loop now (byAddr t) t"

section \<open>Runs of the table\<close>

text \<open>One call of a method, by any goroutine.\<close>

datatype op =
    OpInit addr u32 int
  | OpTraffic addr int
  | OpSetPub addr key
  | OpTargets u32 "key list" bool int
  | OpGc int

fun exec :: "table \<Rightarrow> op \<Rightarrow> table" where
  "exec t (OpInit a i now) = clientInit t a i now"
| "exec t (OpTraffic a now) = clientTraffic t a now"
| "exec t (OpSetPub a pub) = setPub t a pub"
| "exec t (OpTargets i cands needPub now) = snd (responseTargets t i cands needPub now)"
| "exec t (OpGc now) = gc t now"

abbreviation run :: "table \<Rightarrow> op list \<Rightarrow> table" where
  "run t ops \<equiv> foldl exec t ops"

text \<open>The address that registered an index last, in a run.\<close>

fun last_init :: "u32 \<Rightarrow> op list \<Rightarrow> addr option" where
  "last_init i [] = None"
| "last_init i (OpInit a j now # ops) =
     (case last_init i ops of None \<Rightarrow> if i = j then Some a else None | Some b \<Rightarrow> Some b)"
| "last_init i (_ # ops) = last_init i ops"

section \<open>Well-formed tables\<close>

text \<open>Pointers are in range, an address maps to the session of that address, keys of
  \<open>byAddr\<close> are distinct (it is a map).\<close>

definition wf_table :: "table \<Rightarrow> bool" where
  "wf_table t \<longleftrightarrow>
     distinct (map fst (byAddr t)) \<and>
     (\<forall>a p. map_of (byAddr t) a = Some p \<longrightarrow> p < length (store t) \<and> s_addr (store t ! p) = a) \<and>
     (\<forall>i p. byIndex t i = Some p \<longrightarrow> p < length (store t))"

lemma wf_newTable [simp]: "wf_table (newTable d)"
  by (simp add: wf_table_def newTable_def)

section \<open>Lemmas on the operations\<close>

lemma getLocked_spec:
  assumes "wf_table t" "getLocked t a = (p, t')"
  shows "wf_table t'" "map_of (byAddr t') = (map_of (byAddr t))(a \<mapsto> p)"
    "byIndex t' = byIndex t" "ttl t' = ttl t"
    "p < length (store t')" "s_addr (store t' ! p) = a"
    "length (store t) \<le> length (store t')"
    "q < length (store t) \<Longrightarrow> store t' ! q = store t ! q"
    "map_of (byAddr t) a = None \<Longrightarrow>
       s_clientIndex (store t' ! p) = 0 \<and> \<not> s_pubKnown (store t' ! p)"
    "map_of (byAddr t) a = Some r \<Longrightarrow> r = p"
  using assms
  by (auto simp: getLocked_def wf_table_def Let_def AList.distinct_update update_conv' nth_append fun_upd_idem
      split: option.splits if_splits intro: less_SucI simp: less_Suc_eq)

lemma upd_sel [simp]:
  "byAddr (upd t p f) = byAddr t" "byIndex (upd t p f) = byIndex t" "ttl (upd t p f) = ttl t"
  "length (store (upd t p f)) = length (store t)"
  by (simp_all add: upd_def)

lemma upd_nth:
  "q < length (store t) \<Longrightarrow>
     store (upd t p f) ! q = (if q = p then f (store t ! p) else store t ! q)"
  by (simp add: upd_def)

lemma wf_upd:
  "wf_table t \<Longrightarrow> (\<And>s. s_addr (f s) = s_addr s) \<Longrightarrow> wf_table (upd t p f)"
  by (auto simp: wf_table_def upd_nth)


lemma upd_s_addr:
  "(\<And>s. s_addr (f s) = s_addr s) \<Longrightarrow> q < length (store t) \<Longrightarrow>
     s_addr (store (upd t p f) ! q) = s_addr (store t ! q)"
  by (simp add: upd_nth)

text \<open>Every method but \<open>responseTargets\<close> and \<open>gc\<close> fetches the session of its address and
  writes through the pointer.\<close>

lemma clientInit_eq:
  "clientInit t a i now = (let (p, t1) = getLocked t a;
     t2 = upd t1 p (\<lambda>s. s\<lparr>s_clientIndex := i, s_lastSeen := Some now\<rparr>)
   in t2\<lparr>byIndex := (byIndex t1)(i \<mapsto> p)\<rparr>)"
  by (simp add: clientInit_def Let_def split: prod.splits)

lemma wf_clientInit:
  assumes "wf_table t" shows "wf_table (clientInit t a i now)"
proof -
  obtain p t1 where g: "getLocked t a = (p, t1)" by force
  let ?t2 = "upd t1 p (\<lambda>s. s\<lparr>s_clientIndex := i, s_lastSeen := Some now\<rparr>)"
  have "wf_table ?t2" by (rule wf_upd) (simp_all add: getLocked_spec(1) [OF assms g])
  with getLocked_spec(5) [OF assms g] show ?thesis
    by (simp add: clientInit_eq g wf_table_def Let_def)
qed

lemma wf_clientTraffic: "wf_table t \<Longrightarrow> wf_table (clientTraffic t a now)"
  by (auto simp: clientTraffic_def intro!: wf_upd dest: getLocked_spec(1) split: prod.splits)

lemma wf_setPub: "wf_table t \<Longrightarrow> wf_table (setPub t a pub)"
  by (auto simp: setPub_def intro!: wf_upd dest: getLocked_spec(1) split: prod.splits)

lemma wf_responseTargets: "wf_table t \<Longrightarrow> wf_table (snd (responseTargets t i c n now))"
  by (auto simp: responseTargets_def Let_def intro!: wf_upd split: option.splits)

subsection \<open>Garbage collection\<close>

text \<open>\<open>gc_loop\<close> reads the store only, which it does not change, so its effect on the two maps
  can be stated pointwise, whatever the order of the entries.\<close>

lemma gc_loop_frame [simp]: "store (gc_loop now es t) = store t" "ttl (gc_loop now es t) = ttl t"
  by (induction es arbitrary: t) auto

lemma expired_cong: "store t' = store t \<Longrightarrow> ttl t' = ttl t \<Longrightarrow> expired t' = expired t"
  by (simp add: expired_def fun_eq_iff)

lemma gc_loop_byAddr:
  "map_of (byAddr (gc_loop now es t)) a =
     (if \<exists>p. (a, p) \<in> set es \<and> expired t now p then None else map_of (byAddr t) a)"
proof (induction es arbitrary: t)
  case (Cons e es)
  have "expired (t\<lparr>byAddr := x, byIndex := y\<rparr>) = expired t" for x y
    by (rule expired_cong) simp_all
  with Cons show ?case by (cases e) (auto simp: delete_conv')
qed simp

lemma gc_loop_byIndex:
  "byIndex (gc_loop now es t) i =
     (if \<exists>k p. (k, p) \<in> set es \<and> expired t now p \<and> s_clientIndex (store t ! p) = i
      then None else byIndex t i)"
proof (induction es arbitrary: t)
  case (Cons e es)
  have "expired (t\<lparr>byAddr := x, byIndex := y\<rparr>) = expired t" for x y
    by (rule expired_cong) simp_all
  with Cons show ?case by (cases e) (auto simp: fun_upd_def)
qed simp

lemma gc_loop_distinct:
  "distinct (map fst (byAddr t)) \<Longrightarrow> distinct (map fst (byAddr (gc_loop now es t)))"
  by (induction es arbitrary: t) (auto simp: AList.distinct_delete)

lemma gc_byAddr:
  "wf_table t \<Longrightarrow> map_of (byAddr (gc t now)) a =
     (case map_of (byAddr t) a of
        None \<Rightarrow> None | Some p \<Rightarrow> if expired t now p then None else Some p)"
  unfolding gc_def gc_loop_byAddr
  by (auto simp: wf_table_def split: option.splits dest: map_of_SomeD eq_key_imp_eq_value)
   
lemma gc_byIndex:
  "wf_table t \<Longrightarrow> byIndex (gc t now) i =
     (if \<exists>a p. map_of (byAddr t) a = Some p \<and> expired t now p \<and> s_clientIndex (store t ! p) = i
      then None else byIndex t i)"
  unfolding gc_def gc_loop_byIndex by (simp add: wf_table_def)

lemma gc_frame [simp]: "store (gc t now) = store t" "ttl (gc t now) = ttl t"
  by (simp_all add: gc_def)

lemma wf_gc: "wf_table t \<Longrightarrow> wf_table (gc t now)"
  using gc_byAddr [of t now] gc_byIndex [of t now]
  unfolding wf_table_def [of "gc t now"]
  by (auto simp: gc_loop_distinct gc_def wf_table_def split: option.splits if_splits)

lemma wf_exec: "wf_table t \<Longrightarrow> wf_table (exec t x)"
  by (cases x) (simp_all add: wf_clientInit wf_clientTraffic wf_setPub wf_responseTargets wf_gc)

lemma wf_run: "wf_table t \<Longrightarrow> wf_table (run t ops)"
  by (induction ops arbitrary: t) (simp_all add: wf_exec)

section \<open>The interface: routes by index\<close>

text \<open>Where a reply for a receiver index is sent.\<close>

definition route :: "table \<Rightarrow> u32 \<Rightarrow> addr option" where
  "route t i = map_option (\<lambda>p. s_addr (store t ! p)) (byIndex t i)"

definition is_init :: "op \<Rightarrow> bool" where
  "is_init x \<longleftrightarrow> (case x of OpInit _ _ _ \<Rightarrow> True | _ \<Rightarrow> False)"

text \<open>What the proxy loops rely on: registering an index routes it to the address, no other
  method redirects an index, and an answer names the route.\<close>

locale session_table =
  fixes step :: "'t \<Rightarrow> op \<Rightarrow> 't"
    and targets :: "'t \<Rightarrow> u32 \<Rightarrow> key list \<Rightarrow> bool \<Rightarrow> int \<Rightarrow> (addr \<times> key list) option \<times> 't"
    and routes :: "'t \<Rightarrow> u32 \<Rightarrow> addr option"
    and inv :: "'t \<Rightarrow> bool"
  assumes inv_step: "inv t \<Longrightarrow> inv (step t x)"
    and routes_init: "inv t \<Longrightarrow> routes (step t (OpInit a i now)) = (routes t)(i \<mapsto> a)"
    and routes_other: "inv t \<Longrightarrow> \<not> is_init x \<Longrightarrow> routes (step t x) \<subseteq>\<^sub>m routes t"
    and targets_step: "snd (targets t i cands np now) = step t (OpTargets i cands np now)"
    and targets_route: "inv t \<Longrightarrow> map_option fst (fst (targets t i cands np now)) = routes t i"
begin

lemma inv_run: "inv t \<Longrightarrow> inv (foldl step t ops)"
  by (induction ops arbitrary: t) (simp_all add: inv_step)

text \<open>Over any interleaving of calls an index is routed, if at all, to the address that
  registered it last.\<close>

lemma routes_run:
  assumes "inv t" "routes (foldl step t ops) i = Some a"
  shows "last_init i ops = Some a \<or> last_init i ops = None \<and> routes t i = Some a"
  using assms
proof (induction ops arbitrary: t)
  case (Cons x ops)
  have IH: "last_init i ops = Some a \<or> last_init i ops = None \<and> routes (step t x) i = Some a"
    using Cons.prems by (intro Cons.IH) (simp_all add: inv_step)
  show ?case
  proof (cases "is_init x")
    case True
    then obtain b j now where "x = OpInit b j now" by (auto simp: is_init_def split: op.splits)
    with IH Cons.prems(1) show ?thesis by (auto simp: routes_init split: if_splits)
  next
    case False
    then have "last_init i (x # ops) = last_init i ops"
      by (cases x) (simp_all add: is_init_def)
    moreover have "routes (step t x) i = Some a \<Longrightarrow> routes t i = Some a"
      using routes_other [OF Cons.prems(1) False] by (fastforce simp: map_le_def dom_def)
    ultimately show ?thesis using IH by auto
  qed
qed simp

lemma targets_run:
  assumes "inv t" "fst (targets (foldl step t ops) i cands np now) = Some (a, ks)"
  shows "last_init i ops = Some a \<or> last_init i ops = None \<and> routes t i = Some a"
  using assms targets_route [OF inv_run [OF assms(1)], of ops i cands np now]
  by (intro routes_run) simp_all

end

text \<open>The table of \<open>sessions.go\<close> keeps the contract.\<close>

lemma route_frame:
  assumes "wf_table t" "byIndex t' = byIndex t"
    and "\<And>p. p < length (store t) \<Longrightarrow> s_addr (store t' ! p) = s_addr (store t ! p)"
  shows "route t' = route t"
proof
  fix i
  show "route t' i = route t i"
  proof (cases "byIndex t i")
    case (Some p)
    with assms(1) have "p < length (store t)" by (auto simp: wf_table_def)
    with assms(3) Some assms(2) show ?thesis by (simp add: route_def)
  qed (simp add: route_def assms(2))
qed

lemma route_touch:
  assumes "wf_table t" "getLocked t a = (p, t1)" "\<And>s. s_addr (f s) = s_addr s"
  shows "route (upd t1 p f) = route t"
proof (rule route_frame [OF assms(1)])
  fix q assume q: "q < length (store t)"
  then have "q < length (store t1)" using getLocked_spec(7) [OF assms(1,2)] by simp
  then show "s_addr (store (upd t1 p f) ! q) = s_addr (store t ! q)"
    using getLocked_spec(8) [OF assms(1,2) q] assms(3) by (simp add: upd_s_addr)
qed (simp add: getLocked_spec(3) [OF assms(1,2)])

lemma route_clientInit: "wf_table t \<Longrightarrow> route (clientInit t a i now) = (route t)(i \<mapsto> a)"
proof
  fix j assume wf: "wf_table t"
  obtain p t1 where g: "getLocked t a = (p, t1)" by force
  let ?f = "\<lambda>s. s\<lparr>s_clientIndex := i, s_lastSeen := Some now\<rparr>"
  have "route (upd t1 p ?f) = route t" by (rule route_touch [OF wf g]) simp
  moreover have "s_addr (store (upd t1 p ?f) ! p) = a"
    using getLocked_spec(5,6) [OF wf g] by (simp add: upd_nth)
  ultimately show "route (clientInit t a i now) j = ((route t)(i \<mapsto> a)) j"
    using getLocked_spec(3) [OF wf g]
    by (auto simp: clientInit_eq g route_def fun_eq_iff)
qed

lemma route_responseTargets: "wf_table t \<Longrightarrow> route (snd (responseTargets t i c n now)) = route t"
  by (auto simp: responseTargets_def Let_def wf_table_def upd_nth
      intro!: route_frame split: option.splits)

lemma route_gc: "wf_table t \<Longrightarrow> route (gc t now) \<subseteq>\<^sub>m route t"
  by (auto simp: map_le_def route_def gc_byIndex dom_def split: if_splits)

lemma responseTargets_route:
  "wf_table t \<Longrightarrow> map_option fst (fst (responseTargets t i c n now)) = route t i"
  by (auto simp: responseTargets_def route_def wf_table_def upd_nth Let_def split: option.splits)

interpretation tbl: session_table exec responseTargets route wf_table
proof unfold_locales
  fix t :: table and x
  assume wf: "wf_table t" and x: "\<not> is_init x"
  have "route (clientTraffic t a now) = route t" "route (setPub t a pub) = route t" for a now pub
    by (auto simp: clientTraffic_def setPub_def route_touch [OF wf] split: prod.splits)
  then show "route (exec t x) \<subseteq>\<^sub>m route t"
    using x wf by (cases x) (simp_all add: is_init_def route_responseTargets route_gc)
qed (simp_all add: wf_exec route_clientInit responseTargets_route)

section \<open>Properties\<close>

text \<open>
  Replies are never misrouted: after any sequence of calls on a new table, in any
  interleaving of the goroutines, the address \<open>responseTargets\<close> returns for an index is the
  one whose handshake registered that index last.
\<close>

lemma reply_goes_to_last_initiator:
  assumes "fst (responseTargets (run (newTable d) ops) i cands needPub now) = Some (a, ks)"
  shows "last_init i ops = Some a"
  using tbl.targets_run [OF wf_newTable assms] by (auto simp: route_def newTable_def)

text \<open>
  Garbage collection does not depend on the order in which Go visits the map: any
  enumeration of \<open>byAddr\<close> removes exactly the sessions idle for longer than the TTL and the
  index entries of those sessions' current indices.
\<close>

lemma gc_any_order:
  assumes "wf_table t" "set es = set (byAddr t)"
  shows "map_of (byAddr (gc_loop now es t)) a =
      (case map_of (byAddr t) a of
         None \<Rightarrow> None | Some p \<Rightarrow> if expired t now p then None else Some p) \<and>
    byIndex (gc_loop now es t) i =
      (if \<exists>a p. map_of (byAddr t) a = Some p \<and> expired t now p \<and> s_clientIndex (store t ! p) = i
       then None else byIndex t i)"
  using gc_byAddr [OF assms(1), of now a] gc_byIndex [OF assms(1), of now i]
  by (simp add: gc_def gc_loop_byAddr gc_loop_byIndex assms(2))

text \<open>Tracking one live route: the address owns the pointer in both maps, no other address's
  session carries the index, and the session was seen at or after \<open>t0\<close>.\<close>

definition live :: "table \<Rightarrow> addr \<Rightarrow> u32 \<Rightarrow> nat \<Rightarrow> int \<Rightarrow> bool" where
  "live t a i p t0 \<longleftrightarrow> wf_table t \<and> map_of (byAddr t) a = Some p \<and> byIndex t i = Some p \<and>
     (\<exists>s. s_lastSeen (store t ! p) = Some s \<and> t0 \<le> s) \<and>
     (\<forall>b q. map_of (byAddr t) b = Some q \<and> b \<noteq> a \<longrightarrow> s_clientIndex (store t ! q) \<noteq> i)"

text \<open>A call that may run concurrently: it happens at or after \<open>t0\<close>, no other address
  registers the index, and collection runs within the TTL.\<close>

fun harmless :: "addr \<Rightarrow> u32 \<Rightarrow> int \<Rightarrow> int \<Rightarrow> op \<Rightarrow> bool" where
  "harmless a i t0 d (OpInit b j now) \<longleftrightarrow> t0 \<le> now \<and> (j = i \<longrightarrow> b = a)"
| "harmless a i t0 d (OpTraffic b now) \<longleftrightarrow> t0 \<le> now"
| "harmless a i t0 d (OpSetPub b pub) \<longleftrightarrow> True"
| "harmless a i t0 d (OpTargets j cands needPub now) \<longleftrightarrow> t0 \<le> now"
| "harmless a i t0 d (OpGc now) \<longleftrightarrow> now \<le> t0 + d"

text \<open>A write through the session of some address keeps the route alive if it does not put
  the session's time back or give another address the index.\<close>

lemma live_touch:
  assumes "live t a i p t0" "i \<noteq> 0" "getLocked t b = (q, t1)"
    and "\<And>s. s_addr (f s) = s_addr s"
    and "\<And>s. s_lastSeen (f s) = s_lastSeen s \<or> (\<exists>n\<ge>t0. s_lastSeen (f s) = Some n)"
    and "\<And>s. b \<noteq> a \<Longrightarrow> s_clientIndex s \<noteq> i \<Longrightarrow> s_clientIndex (f s) \<noteq> i"
  shows "live (upd t1 q f) a i p t0"
proof -
  have wf: "wf_table t" and a: "map_of (byAddr t) a = Some p" and p: "p < length (store t)"
    using assms(1) by (auto simp: live_def wf_table_def)
  note g = getLocked_spec [OF wf assms(3)]
  have wf1: "wf_table (upd t1 q f)" by (rule wf_upd [OF g(1) assms(4)])
  have old: "store t1 ! p = store t ! p" using g(8) [OF p] .
  have idx: "s_clientIndex (store (upd t1 q f) ! r) \<noteq> i"
    if c: "map_of (byAddr t1) c = Some r" "c \<noteq> a" for c r
  proof -
    have r: "r < length (store t1)" using wf1 c(1) by (auto simp: wf_table_def)
    have "s_clientIndex (store t1 ! r) \<noteq> i"
    proof (cases "map_of (byAddr t) c")
      case None
      with c g(2) have "c = b" "r = q" by (auto split: if_splits)
      with None g(9) assms(2) show ?thesis by simp
    next
      case (Some r')
      with c g(2,10) have "r' = r" by (auto split: if_splits)
      with Some wf g(8) [of r] assms(1) c(2) show ?thesis by (auto simp: live_def wf_table_def)
    qed
    moreover have "s_addr (store t1 ! r) = c" using g(1) c(1) by (auto simp: wf_table_def)
    then have "b \<noteq> a" if "r = q" using that c(2) g(6) by simp
    ultimately show ?thesis using r assms(6) [of "store t1 ! q"] by (auto simp: upd_nth)
  qed
  have "p < length (store t1)" using p g(7) by simp
  moreover have "map_of (byAddr t1) a = Some p" using a g(2,10) by (cases "a = b") auto
  ultimately show ?thesis
    using wf1 assms(1) assms(5) [of "store t ! p"] old g(3) idx
    by (auto simp: live_def upd_nth)
qed


lemma live_seen:
  assumes "live t a i p t0" "t0 \<le> now" "q < length (store t)"
  shows "live (upd t q (\<lambda>s. s\<lparr>s_lastSeen := Some now\<rparr>)) a i p t0"
proof -
  let ?t = "upd t q (\<lambda>s. s\<lparr>s_lastSeen := Some now\<rparr>)"
  have "s_clientIndex (store ?t ! r) = s_clientIndex (store t ! r)" for r
    using assms(3) by (cases "q = r") (simp_all add: upd_def)
  moreover have "wf_table ?t" using assms(1) by (intro wf_upd) (simp_all add: live_def)
  ultimately show ?thesis using assms by (auto simp: live_def upd_def nth_list_update)
qed

lemma live_exec:
  assumes "live t a i p t0" "i \<noteq> 0" "harmless a i t0 (ttl t) x"
  shows "live (exec t x) a i p t0"
proof (cases x)
  case (OpInit b j now)
  obtain q t1 where g: "getLocked t b = (q, t1)" by force
  let ?f = "\<lambda>s. s\<lparr>s_clientIndex := j, s_lastSeen := Some now\<rparr>"
  have "live (upd t1 q ?f) a i p t0"
    using assms OpInit by (intro live_touch [OF assms(1,2) g]) auto
  moreover have "wf_table (exec t x)" using assms(1) by (auto simp: live_def wf_exec)
  moreover have "q = p" if "j = i"
    using that assms(1,3) OpInit getLocked_spec(10) [of t b q t1 p] g by (auto simp: live_def)
  ultimately show ?thesis
    using OpInit getLocked_spec(3) [of t b q t1] g assms(1)
    by (auto simp: live_def clientInit_eq Let_def)
next
  case (OpTraffic b now)
  with assms show ?thesis
    by (auto simp: clientTraffic_def intro!: live_touch [OF assms(1,2)] split: prod.splits)
next
  case (OpSetPub b pub)
  with assms show ?thesis
    by (auto simp: setPub_def intro!: live_touch [OF assms(1,2)] split: prod.splits)
next
  case (OpTargets j cands np now)
  have "q < length (store t)" if "byIndex t j = Some q" for q
    using that assms(1) by (auto simp: live_def wf_table_def)
  with OpTargets assms show ?thesis
    by (auto simp: responseTargets_def Let_def live_seen split: option.splits)
next
  case (OpGc now)
  have wf: "wf_table t" and e: "\<not> expired t now p"
    using assms OpGc by (auto simp: live_def expired_def since_def)
  have a: "map_of (byAddr t) a = Some p" and i: "byIndex t i = Some p"
    and other: "\<And>b q. map_of (byAddr t) b = Some q \<Longrightarrow> b \<noteq> a \<Longrightarrow> s_clientIndex (store t ! q) \<noteq> i"
    using assms(1) by (auto simp: live_def)
  have "\<not> (\<exists>b q. map_of (byAddr t) b = Some q \<and> expired t now q \<and> s_clientIndex (store t ! q) = i)"
    using a e other by (metis option.inject)
  then have "byIndex (gc t now) i = Some p"
    using gc_byIndex [OF wf, of now i] i by simp
  moreover have "map_of (byAddr (gc t now)) a = Some p"
    using gc_byAddr [OF wf, of now a] a e by simp
  moreover have "map_of (byAddr t) b = Some q" if "map_of (byAddr (gc t now)) b = Some q" for b q
    using that gc_byAddr [OF wf, of now b] by (simp split: option.splits if_splits)
  ultimately show ?thesis
    using OpGc assms(1) other wf_gc [OF wf] by (simp add: live_def) blast
qed

lemma exec_ttl [simp]: "ttl (exec t x) = ttl t"
proof (cases "wf_table t")
qed (cases x; auto simp: clientInit_eq clientTraffic_def setPub_def responseTargets_def Let_def
   getLocked_def split: option.splits prod.splits)+

lemma live_run:
  "live t a i p t0 \<Longrightarrow> i \<noteq> 0 \<Longrightarrow> \<forall>x \<in> set ops. harmless a i t0 (ttl t) x \<Longrightarrow>
     live (run t ops) a i p t0"
  by (induction ops arbitrary: t) (simp_all add: live_exec)



text \<open>An index that no session reachable by address carries any more.\<close>

definition orphaned :: "table \<Rightarrow> u32 \<Rightarrow> nat \<Rightarrow> bool" where
  "orphaned t i p \<longleftrightarrow> wf_table t \<and> byIndex t i = Some p \<and>
     (\<forall>b q. map_of (byAddr t) b = Some q \<longrightarrow> s_clientIndex (store t ! q) \<noteq> i)"

lemma orphaned_touch:
  assumes "orphaned t i p" "i \<noteq> 0" "getLocked t b = (q, t1)"
    and "\<And>s. s_addr (f s) = s_addr s"
    and "\<And>s. s_clientIndex s \<noteq> i \<Longrightarrow> s_clientIndex (f s) \<noteq> i"
  shows "orphaned (upd t1 q f) i p"
proof -
  have wf: "wf_table t" using assms(1) by (simp add: orphaned_def)
  note g = getLocked_spec [OF wf assms(3)]
  have "s_clientIndex (store t1 ! r) \<noteq> i" if c: "map_of (byAddr t1) c = Some r" for c r
  proof (cases "map_of (byAddr t) c")
    case None
    with c g(2) have "c = b" "r = q" by (auto split: if_splits)
    with None g(9) assms(2) show ?thesis by simp
  next
    case (Some r')
    with c g(2,10) have "r' = r" by (auto split: if_splits)
    with Some wf g(8) [of r] assms(1) show ?thesis by (auto simp: orphaned_def wf_table_def)
  qed
  moreover have "r < length (store t1)" if "map_of (byAddr t1) c = Some r" for c r
    using that g(1) by (auto simp: wf_table_def)
  moreover have "wf_table (upd t1 q f)" by (rule wf_upd [OF g(1) assms(4)])
  ultimately show ?thesis using assms(1) assms(5) g(3) by (auto simp: orphaned_def upd_nth)
qed

lemma orphaned_exec:
  assumes "orphaned t i p" "i \<noteq> 0" "\<forall>b now. x \<noteq> OpInit b i now"
  shows "orphaned (exec t x) i p"
proof (cases x)
  case (OpInit b j now)
  obtain q t1 where g: "getLocked t b = (q, t1)" by force
  let ?f = "\<lambda>s. s\<lparr>s_clientIndex := j, s_lastSeen := Some now\<rparr>"
  have "orphaned (upd t1 q ?f) i p"
    using assms OpInit by (intro orphaned_touch [OF assms(1,2) g]) auto
  moreover have "wf_table (exec t x)" using assms(1) by (auto simp: orphaned_def wf_exec)
  moreover have "byIndex t1 = byIndex t"
    using getLocked_spec(3) [of t b q t1] g assms(1) by (simp add: orphaned_def)
  ultimately show ?thesis
    using OpInit g assms by (simp add: orphaned_def clientInit_eq)
next
  case (OpTraffic b now)
  with assms show ?thesis
    by (auto simp: clientTraffic_def intro!: orphaned_touch [OF assms(1,2)] split: prod.splits)
next
  case (OpSetPub b pub)
  with assms show ?thesis
    by (auto simp: setPub_def intro!: orphaned_touch [OF assms(1,2)] split: prod.splits)
next
  case (OpTargets j cands np now)
  have *: "s_clientIndex (store (upd t q (\<lambda>s. s\<lparr>s_lastSeen := Some now\<rparr>)) ! r) =
      s_clientIndex (store t ! r)" if "byIndex t j = Some q" for q r
    using that assms(1) by (cases "q = r") (auto simp: upd_def orphaned_def wf_table_def)
  have "orphaned (upd t q (\<lambda>s. s\<lparr>s_lastSeen := Some now\<rparr>)) i p" if "byIndex t j = Some q" for q
    using assms(1) * [OF that] by (simp add: orphaned_def wf_upd)
  with OpTargets assms show ?thesis
    by (auto simp: responseTargets_def Let_def split: option.splits)
next
  case (OpGc now)
  have wf: "wf_table t" and i: "byIndex t i = Some p"
    and other: "\<And>b q. map_of (byAddr t) b = Some q \<Longrightarrow> s_clientIndex (store t ! q) \<noteq> i"
    using assms(1) by (auto simp: orphaned_def)
  have "byIndex (gc t now) i = Some p" using gc_byIndex [OF wf, of now i] i other by auto
  moreover have "map_of (byAddr t) b = Some q" if "map_of (byAddr (gc t now)) b = Some q" for b q
    using that gc_byAddr [OF wf, of now b] by (simp split: option.splits if_splits)
  ultimately show ?thesis using OpGc other wf_gc [OF wf] by (simp add: orphaned_def) blast
qed

lemma orphaned_run:
  "orphaned t i p \<Longrightarrow> i \<noteq> 0 \<Longrightarrow> \<forall>x \<in> set ops. \<forall>b now. x \<noteq> OpInit b i now \<Longrightarrow>
     orphaned (run t ops) i p"
  by (induction ops arbitrary: t) (simp_all add: orphaned_exec)

text \<open>
  A client's second handshake orphans its first index: \<open>gc\<close> deletes the index a session
  carries now, never the ones it carried before, so the old entry of \<open>byIndex\<close> survives every
  later run, whatever collections it holds and however long the client is gone, unless the
  same index is registered again. Every rekey of every client leaves one such entry behind.
\<close>

lemma rehandshake_leaks_index:
  assumes "i \<noteq> 0" "i \<noteq> j" "\<forall>x \<in> set ops. \<forall>b now. x \<noteq> OpInit b i now"
  shows "byIndex (run (newTable d) (OpInit a i t1 # OpInit a j t2 # ops)) i = Some 0"
proof -
  let ?t = "run (newTable d) [OpInit a i t1, OpInit a j t2]"
  have "wf_table ?t" by (rule wf_run) simp
  then have "orphaned ?t i 0"
    using assms(1,2)
    by (auto simp: orphaned_def newTable_def clientInit_def getLocked_def upd_def)
  from orphaned_run [OF this assms(1,3)] show ?thesis by (simp add: orphaned_def)
qed

text \<open>
  C26. Collecting an idle session deletes the index entry it carries even when another, live
  client has registered that index since: the live client's replies are then dropped.
\<close>

theorem gc_drops_reassigned_index:
  assumes "a \<noteq> b" "0 \<le> d" "t1 + d < now" "now \<le> t2 + d" "d < 2 ^ 63 - 1"
  shows "let t = run (newTable d) [OpInit a i t1, OpInit b i t2]
    in route t i = Some b \<and> map_of (byAddr (gc t now)) b \<noteq> None \<and> route (gc t now) i = None"
  using assms
  by (simp add: newTable_def clientInit_def getLocked_def upd_def route_def gc_def expired_def
      since_def Let_def)

theorem gc_drops_reassigned_index_witness:
  "let t = run (newTable 180) [OpInit ''a:1'' 7 0, OpInit ''b:2'' 7 100]
   in route t 7 = Some ''b:2'' \<and> map_of (byAddr (gc t 181)) ''b:2'' \<noteq> None \<and>
      route (gc t 181) 7 = None"
  by (rule gc_drops_reassigned_index) simp_all

text \<open>A key a session holds as known was set for its address.\<close>

definition keys_from :: "op list \<Rightarrow> table \<Rightarrow> bool" where
  "keys_from ops t \<longleftrightarrow>
     (\<forall>p < length (store t). s_pubKnown (store t ! p) \<longrightarrow>
        OpSetPub (s_addr (store t ! p)) (s_pub (store t ! p)) \<in> set ops)"

lemma keys_from_touch:
  assumes "wf_table t" "keys_from ops t" "getLocked t a = (p, t1)" "\<And>s. s_addr (f s) = s_addr s"
    and "\<And>s. s_addr s = a \<Longrightarrow> s_pubKnown (f s) \<Longrightarrow>
      s_pubKnown s \<and> s_pub (f s) = s_pub s \<or> OpSetPub a (s_pub (f s)) \<in> set ops"
  shows "keys_from ops (upd t1 p f)"
proof -
  note g = getLocked_spec [OF assms(1,3)]
  have k: "keys_from ops t1"
  proof (cases "map_of (byAddr t) a")
    case None
    with assms(2,3) show ?thesis
      by (auto simp: keys_from_def getLocked_def Let_def nth_append less_Suc_eq)
  next
    case (Some q)
    with assms(2,3) show ?thesis by (auto simp: getLocked_def)
  qed
  show ?thesis
    unfolding keys_from_def
  proof (intro allI impI)
    fix q assume q: "q < length (store (upd t1 p f))" "s_pubKnown (store (upd t1 p f) ! q)"
    then show "OpSetPub (s_addr (store (upd t1 p f) ! q)) (s_pub (store (upd t1 p f) ! q)) \<in> set ops"
      using k assms(4) assms(5) [of "store t1 ! p"] g(5,6)
      by (cases "q = p") (auto simp: keys_from_def upd_nth)
  qed
qed

lemma keys_from_mono: "keys_from ops t \<Longrightarrow> set ops \<subseteq> set ops' \<Longrightarrow> keys_from ops' t"
  by (auto simp: keys_from_def)

lemma keys_from_exec:
  assumes "wf_table t" "keys_from ops t"
  shows "keys_from (ops @ [x]) (exec t x)"
proof -
  have k: "keys_from (ops @ [x]) t" by (rule keys_from_mono [OF assms(2)]) auto
  show ?thesis
  proof (cases x)
    case (OpInit a i now)
    obtain p t1 where g: "getLocked t a = (p, t1)" by force
    have "keys_from (ops @ [x]) (upd t1 p (\<lambda>s. s\<lparr>s_clientIndex := i, s_lastSeen := Some now\<rparr>))"
      by (rule keys_from_touch [OF assms(1) k g]) simp_all
    with OpInit g show ?thesis by (simp add: clientInit_eq keys_from_def)
  next
    case (OpTraffic a now)
    with k show ?thesis
      by (auto simp: clientTraffic_def intro!: keys_from_touch [OF assms(1)] split: prod.splits)
  next
    case (OpSetPub a pub)
    with k show ?thesis
      by (auto simp: setPub_def intro!: keys_from_touch [OF assms(1)] split: prod.splits)
  next
    case (OpTargets i cands np now)
    with k show ?thesis
      by (auto simp: responseTargets_def Let_def keys_from_def upd_nth split: option.splits)
  next
    case (OpGc now)
    with k show ?thesis by (simp add: keys_from_def)
  qed
qed

lemma keys_from_run:
  "wf_table t \<Longrightarrow> keys_from ops0 t \<Longrightarrow> keys_from (ops0 @ ops) (run t ops)"
proof (induction ops arbitrary: t ops0)
  case (Cons x ops)
  from Cons.IH [OF wf_exec keys_from_exec, OF Cons.prems(1) Cons.prems] show ?case by simp
qed simp

text \<open>
  The keys a reply is signed for: only a handshake response needs one; it then gets
  either a single key that decryption has established for this very address, or all
  candidates (the burst), or the zero key if there are none. No key of another client is
  ever taken for the client's own.
\<close>

lemma reply_keys:
  assumes "fst (responseTargets (run (newTable d) ops) i cands needPub now) = Some (a, ks)"
  shows "if needPub
    then (\<exists>k. ks = [k] \<and> OpSetPub a k \<in> set ops) \<or> ks = (if cands = [] then [zero_key] else cands)
    else ks = [zero_key]"
proof -
  let ?t = "run (newTable d) ops"
  have "keys_from ([] @ ops) ?t"
    by (rule keys_from_run [OF wf_newTable]) (simp add: keys_from_def newTable_def)
  moreover have "wf_table ?t" by (rule wf_run) simp
  ultimately show ?thesis
    using assms
    by (auto simp: responseTargets_def Let_def upd_nth keys_from_def wf_table_def
        split: option.splits if_splits)
qed

text \<open>
  A key once established for an address is used for every later handshake from that
  address, also when the new initiation could not be decrypted: the burst over all
  candidates is not taken then.
\<close>

lemma known_key_sticks:
  assumes "wf_table t"
  shows "fst (responseTargets (run t [OpInit a i t0, OpSetPub a k, OpInit a j t1]) j cands True now) =
    Some (a, [k])"
proof -
  have get: "getLocked t' a = (p, t')" if "map_of (byAddr t') a = Some p" for t' p
    using that by (simp add: getLocked_def)
  obtain p t1 where g: "getLocked t a = (p, t1)" by force
  note g' = getLocked_spec [OF assms g]
  have a1: "map_of (byAddr t1) a = Some p" using g'(2) by simp
  show ?thesis
    using a1 g'(5,6) by (simp add: clientInit_def g setPub_def get responseTargets_def upd_def Let_def)
qed

end
