(* ===== verification/Session_Service.thy ===== *)
theory Session_Service
  imports Proxy_Sessions
begin

text \<open>
  The session table as a refinement: an abstract service without pointers, and the proof that the
  table of \<open>sessions.go\<close> implements it, operation by operation, through an abstraction function.
\<close>

section \<open>The abstract service\<close>

text \<open>What the table is for, without pointers: who owns an index, which key an address has, when
  an address was seen last (\<open>Some None\<close>: known but never seen).\<close>

record service =
  sp_owner :: "u32 \<rightharpoonup> addr"
  sp_pub :: "addr \<rightharpoonup> key"
  sp_seen :: "addr \<rightharpoonup> int option"

definition no_service :: service where
  "no_service = \<lparr>sp_owner = Map.empty, sp_pub = Map.empty, sp_seen = Map.empty\<rparr>"

fun serve :: "service \<Rightarrow> op \<Rightarrow> service" where
  "serve v (OpInit a i now) = v\<lparr>sp_owner := (sp_owner v)(i \<mapsto> a), sp_seen := (sp_seen v)(a \<mapsto> Some now)\<rparr>"
| "serve v (OpTraffic a now) = v\<lparr>sp_seen := (sp_seen v)(a \<mapsto> Some now)\<rparr>"
| "serve v (OpSetPub a pub) = v\<lparr>sp_pub := (sp_pub v)(a \<mapsto> pub),
     sp_seen := (sp_seen v)(a := Some (case sp_seen v a of None \<Rightarrow> None | Some s \<Rightarrow> s))\<rparr>"
| "serve v (OpTargets i cands needPub now) =
     (case sp_owner v i of None \<Rightarrow> v | Some a \<Rightarrow> v\<lparr>sp_seen := (sp_seen v)(a \<mapsto> Some now)\<rparr>)"
| "serve v (OpGc now) = v"

definition answer :: "service \<Rightarrow> u32 \<Rightarrow> key list \<Rightarrow> bool \<Rightarrow> (addr \<times> key list) option" where
  "answer v i cands needPub =
     map_option (\<lambda>a. (a, if \<not> needPub then [zero_key] else
        case sp_pub v a of Some k \<Rightarrow> [k] | None \<Rightarrow> if cands = [] then [zero_key] else cands)) (sp_owner v i)"

text \<open>A call that collects nobody.\<close>

definition quiet :: "int \<Rightarrow> service \<Rightarrow> op \<Rightarrow> bool" where
  "quiet d v x \<longleftrightarrow> (\<forall>now. x = OpGc now \<longrightarrow> (\<forall>s \<in> ran (sp_seen v). since now s \<le> d))"

fun quiet_run :: "int \<Rightarrow> service \<Rightarrow> op list \<Rightarrow> bool" where
  "quiet_run d v [] \<longleftrightarrow> True"
| "quiet_run d v (x # ops) \<longleftrightarrow> quiet d v x \<and> quiet_run d (serve v x) ops"

text \<open>The abstraction; it is faithful as long as every index leads to a session that is still
  reachable by its address.\<close>

definition pub_of :: "session \<Rightarrow> key option" where
  "pub_of s = (if s_pubKnown s then Some (s_pub s) else None)"

definition session_of :: "table \<Rightarrow> addr \<Rightarrow> session option" where
  "session_of t a = map_option (\<lambda>p. store t ! p) (map_of (byAddr t) a)"

definition abs_table :: "table \<Rightarrow> service" where
  "abs_table t = \<lparr>sp_owner = route t, sp_pub = (\<lambda>a. Option.bind (session_of t a) pub_of),
     sp_seen = (\<lambda>a. map_option s_lastSeen (session_of t a))\<rparr>"

definition coherent :: "table \<Rightarrow> bool" where
  "coherent t \<longleftrightarrow> wf_table t \<and>
     (\<forall>i p. byIndex t i = Some p \<longrightarrow> map_of (byAddr t) (s_addr (store t ! p)) = Some p)"

lemma coherent_wf: "coherent t \<Longrightarrow> wf_table t" by (simp add: coherent_def)

lemma wf_bound: "wf_table t \<Longrightarrow> map_of (byAddr t) a = Some p \<Longrightarrow> p < length (store t) \<and> s_addr (store t ! p) = a"
  unfolding wf_table_def by blast

lemma coherent_at: "coherent t \<Longrightarrow> byIndex t i = Some p \<Longrightarrow> map_of (byAddr t) (s_addr (store t ! p)) = Some p"
  by (simp add: coherent_def)

lemma abs_getLocked:
  assumes "coherent t" "getLocked t a = (p, t1)"
  shows "coherent t1" "map_of (byAddr t1) a = Some p" "route t1 = route t"
    "session_of t1 = (session_of t)(a \<mapsto> store t1 ! p)"
    "store t1 ! p = (case session_of t a of Some s \<Rightarrow> s
       | None \<Rightarrow> \<lparr>s_addr = a, s_clientIndex = 0, s_pub = zero_key, s_pubKnown = False, s_lastSeen = None\<rparr>)"
proof -
  note wf = coherent_wf [OF assms(1)] and g = getLocked_spec [OF coherent_wf [OF assms(1)] assms(2)]
  show "map_of (byAddr t1) a = Some p" using g(2) by simp
  show "route t1 = route t" using g(3,7,8) wf by (intro route_frame [OF wf]) simp_all
  have old: "store t1 ! q = store t ! q" if "map_of (byAddr t) b = Some q" for b q
    using wf_bound [OF wf that] by (intro g(8)) simp
  show "session_of t1 = (session_of t)(a \<mapsto> store t1 ! p)"
    using g(2) old by (auto simp: session_of_def fun_eq_iff intro: option.map_cong)
  show "store t1 ! p = (case session_of t a of Some s \<Rightarrow> s
       | None \<Rightarrow> \<lparr>s_addr = a, s_clientIndex = 0, s_pub = zero_key, s_pubKnown = False, s_lastSeen = None\<rparr>)"
    using assms(2) by (auto simp: session_of_def getLocked_def Let_def split: option.splits)
  show "coherent t1"
    unfolding coherent_def
  proof (intro conjI allI impI g(1))
    fix i q assume "byIndex t1 i = Some q"
    then have q: "map_of (byAddr t) (s_addr (store t ! q)) = Some q"
      using coherent_at [OF assms(1)] g(3) by simp
    with old [OF q] g(2,10) show "map_of (byAddr t1) (s_addr (store t1 ! q)) = Some q"
      by (cases "s_addr (store t ! q) = a") simp_all
  qed
qed

lemma abs_upd:
  assumes "coherent t" "map_of (byAddr t) a = Some p" "\<And>s. s_addr (f s) = s_addr s"
  shows "coherent (upd t p f)" "route (upd t p f) = route t"
    "session_of (upd t p f) = (session_of t)(a \<mapsto> f (store t ! p))"
proof -
  note wf = coherent_wf [OF assms(1)] and p = wf_bound [OF coherent_wf [OF assms(1)] assms(2)]
  have addr: "s_addr (store (upd t p f) ! q) = s_addr (store t ! q)" if "byIndex t i = Some q" for i q
    using that wf by (intro upd_s_addr [OF assms(3)]) (auto simp: wf_table_def)
  show "route (upd t p f) = route t"
    by (rule route_frame [OF wf]) (simp_all add: upd_s_addr [OF assms(3)])
  show "coherent (upd t p f)"
    using coherent_at [OF assms(1)] addr wf_upd [OF wf assms(3)] by (simp add: coherent_def)
  show "session_of (upd t p f) = (session_of t)(a \<mapsto> f (store t ! p))"
  proof
    fix b
    show "session_of (upd t p f) b = ((session_of t)(a \<mapsto> f (store t ! p))) b"
    proof (cases "map_of (byAddr t) b")
      case (Some q)
      with wf_bound [OF wf Some] p assms(2) show ?thesis by (auto simp: session_of_def upd_nth)
    qed (use assms(2) in \<open>auto simp: session_of_def\<close>)
  qed
qed

text \<open>Every method is the abstract one.\<close>

lemma abs_touch:
  assumes "coherent t" "getLocked t a = (p, t1)" "\<And>s. s_addr (f s) = s_addr s"
  shows "coherent (upd t1 p f)" "route (upd t1 p f) = route t"
    "session_of (upd t1 p f) = (session_of t)(a \<mapsto> f (case session_of t a of Some s \<Rightarrow> s
       | None \<Rightarrow> \<lparr>s_addr = a, s_clientIndex = 0, s_pub = zero_key, s_pubKnown = False, s_lastSeen = None\<rparr>))"
    "map_of (byAddr (upd t1 p f)) a = Some p"
  using abs_getLocked [OF assms(1,2)] abs_upd [OF abs_getLocked(1,2) [OF assms(1,2)], of f] assms(3)
  by simp_all

lemma abs_eqI: "route t = sp_owner v \<Longrightarrow> (\<And>a. Option.bind (session_of t a) pub_of = sp_pub v a) \<Longrightarrow>
    (\<And>a. map_option s_lastSeen (session_of t a) = sp_seen v a) \<Longrightarrow> abs_table t = v"
  by (simp add: abs_table_def)

lemma exec_refines:
  assumes "coherent t" "quiet (ttl t) (abs_table t) x"
  shows "coherent (exec t x) \<and> abs_table (exec t x) = serve (abs_table t) x"
proof (cases x)
  case (OpInit a i now)
  obtain p t1 where g: "getLocked t a = (p, t1)" by force
  let ?f = "\<lambda>s. s\<lparr>s_clientIndex := i, s_lastSeen := Some now\<rparr>"
  have "\<And>s. s_addr (?f s) = s_addr s" by simp
  note u = abs_touch [OF assms(1) g this]
  have "coherent (exec t x)" using u(1,4) wf_exec [OF coherent_wf [OF assms(1)], of x] wf_bound [OF coherent_wf [OF u(1)] u(4)]
    by (simp add: OpInit coherent_def clientInit_eq g)
  moreover have "session_of (exec t x) = session_of (upd t1 p ?f)"
    by (simp add: OpInit clientInit_eq g session_of_def fun_eq_iff)
  ultimately show ?thesis using u(3) route_clientInit [OF coherent_wf [OF assms(1)], of a i now]
    by (auto simp: OpInit abs_table_def pub_of_def fun_eq_iff split: option.split)
next
  case (OpTraffic a now)
  obtain p t1 where g: "getLocked t a = (p, t1)" by force
  have "\<And>s. s_addr (s\<lparr>s_lastSeen := Some now\<rparr>) = s_addr s" by simp
  note u = abs_touch [OF assms(1) g this]
  then show ?thesis
    by (auto simp: OpTraffic clientTraffic_def g abs_table_def pub_of_def fun_eq_iff split: option.split)
next
  case (OpSetPub a pub)
  obtain p t1 where g: "getLocked t a = (p, t1)" by force
  have "\<And>s. s_addr (s\<lparr>s_pub := pub, s_pubKnown := True\<rparr>) = s_addr s" by simp
  note u = abs_touch [OF assms(1) g this]
  then show ?thesis
    by (auto simp: OpSetPub setPub_def g abs_table_def pub_of_def fun_eq_iff split: option.split)
next
  case (OpTargets i cands np now)
  show ?thesis
  proof (cases "byIndex t i")
    case None
    with assms(1) show ?thesis by (simp add: OpTargets responseTargets_def abs_table_def route_def)
  next
    case (Some p)
    have "\<And>s. s_addr (s\<lparr>s_lastSeen := Some now\<rparr>) = s_addr s" by simp
    note u = abs_upd [OF assms(1) coherent_at [OF assms(1) Some] this]
    have "route t i = Some (s_addr (store t ! p))" using Some by (simp add: route_def)
    moreover have "session_of t (s_addr (store t ! p)) = Some (store t ! p)"
      using coherent_at [OF assms(1) Some] by (simp add: session_of_def)
    ultimately show ?thesis using u Some
      by (auto simp: OpTargets responseTargets_def Let_def abs_table_def pub_of_def fun_eq_iff)
  qed
next
  case (OpGc now)
  have "\<not> expired t now p" if "map_of (byAddr t) a = Some p" for a p
  proof -
    have "sp_seen (abs_table t) a = Some (s_lastSeen (store t ! p))"
      using that by (simp add: abs_table_def session_of_def)
    then show ?thesis using assms(2) OpGc by (force simp: quiet_def expired_def ran_def)
  qed
  then have g: "map_of (byAddr (gc t now)) = map_of (byAddr t)" "byIndex (gc t now) = byIndex t"
    using gc_byAddr [OF coherent_wf [OF assms(1)], of now] gc_byIndex [OF coherent_wf [OF assms(1)], of now]
    by (auto simp: fun_eq_iff split: option.split)
  have "wf_table (gc t now)" by (rule wf_gc [OF coherent_wf [OF assms(1)]])
  with g assms(1) show ?thesis
    by (simp add: OpGc coherent_def abs_table_def route_def [abs_def] session_of_def [abs_def])
qed

lemma targets_refines:
  assumes "coherent t"
  shows "fst (responseTargets t i cands np now) = answer (abs_table t) i cands np"
proof (cases "byIndex t i")
  case (Some p)
  have "p < length (store t)" using Some coherent_wf [OF assms] by (auto simp: wf_table_def)
  then show ?thesis using coherent_at [OF assms Some]
    by (simp add: Some responseTargets_def Let_def answer_def abs_table_def route_def session_of_def pub_of_def upd_nth)
qed (simp add: responseTargets_def answer_def abs_table_def route_def)

lemma run_refines:
  "coherent t \<Longrightarrow> quiet_run (ttl t) (abs_table t) ops \<Longrightarrow>
     coherent (run t ops) \<and> abs_table (run t ops) = foldl serve (abs_table t) ops"
proof (induction ops arbitrary: t)
  case (Cons x ops)
  then show ?case using exec_refines [of t x] by simp
qed simp

lemma new_refines: "coherent (newTable d)" "abs_table (newTable d) = no_service"
  by (simp_all add: coherent_def newTable_def wf_table_def abs_table_def no_service_def route_def
      session_of_def fun_eq_iff)

text \<open>
  C21. The table refines the service: as long as no collection finds a session idle for longer
  than the TTL, every state of the pointer structure is an implementation of the service's
  state after the same calls, and it gives the service's answers: the last initiator of the
  index, with the key last established for its address.
\<close>

theorem table_refines_service:
  assumes "quiet_run d no_service ops"
  shows "abs_table (run (newTable d) ops) = foldl serve no_service ops \<and>
    fst (responseTargets (run (newTable d) ops) i cands needPub now) =
      answer (foldl serve no_service ops) i cands needPub"
proof -
  have "quiet_run (ttl (newTable d)) (abs_table (newTable d)) ops"
    using assms by (simp add: new_refines(2)) (simp add: newTable_def)
  from run_refines [OF new_refines(1) this]
  have "coherent (run (newTable d) ops)" "abs_table (run (newTable d) ops) = foldl serve no_service ops"
    by (simp_all add: new_refines(2))
  then show ?thesis using targets_refines by simp
qed

text \<open>Two clients, one with a key, and a collection within the TTL.\<close>

theorem table_refines_service_witness:
  "fst (responseTargets (run (newTable 10) [OpInit ''a:1'' 7 0, OpSetPub ''a:1'' [5],
     OpInit ''b:2'' 8 1, OpGc 9]) 7 [[1], [2]] True 9) = Some (''a:1'', [[5]])"
proof -
  have "quiet_run 10 no_service [OpInit ''a:1'' 7 0, OpSetPub ''a:1'' [5], OpInit ''b:2'' 8 1, OpGc 9]"
    by (auto simp: quiet_def no_service_def ran_def since_def split: option.split if_splits)
  from table_refines_service [OF this, of 7 "[[1], [2]]" True 9] show ?thesis
    by (simp add: answer_def no_service_def)
qed

end
