(* ===== verification/Traces.thy ===== *)
theory Traces
  imports Main
begin

text \<open>
  Executions of a labelled transition system, for the parts of the program that run
  concurrently: the events of a trace, latest last, and the state they lead to. The interface
  \<open>trace_inv\<close> is the proof rule for what holds in every reachable state: an invariant over the
  trace so far and the state.
\<close>

inductive trace :: "('s \<Rightarrow> 'e \<Rightarrow> 's \<Rightarrow> bool) \<Rightarrow> 's \<Rightarrow> 'e list \<Rightarrow> 's \<Rightarrow> bool" for step s0 where
  nil: "trace step s0 [] s0"
| snoc: "trace step s0 tr s \<Longrightarrow> step s e s' \<Longrightarrow> trace step s0 (tr @ [e]) s'"

lemma trace_step: "step s e s' \<Longrightarrow> trace step s [e] s'"
  using trace.snoc [OF trace.nil] by fastforce

lemma trace_append:
  assumes "trace step s0 tr s" "trace step s tr' s'"
  shows "trace step s0 (tr @ tr') s'"
  using assms(2) by induction (simp_all add: assms(1) trace.snoc flip: append_assoc)

locale trace_inv =
  fixes step :: "'s \<Rightarrow> 'e \<Rightarrow> 's \<Rightarrow> bool"
    and start :: 's
    and allowed_event :: "'e \<Rightarrow> bool"
    and inv :: "'e list \<Rightarrow> 's \<Rightarrow> bool"
  assumes init: "inv [] start"
    and preserved: "trace step start tr s \<Longrightarrow> inv tr s \<Longrightarrow> allowed_event e \<Longrightarrow> step s e s' \<Longrightarrow>
      inv (tr @ [e]) s'"
begin

lemma holds: "trace step start tr s \<Longrightarrow> (\<And>e. e \<in> set tr \<Longrightarrow> allowed_event e) \<Longrightarrow> inv tr s"
  by (induction rule: trace.induct) (simp_all add: init preserved)

end

end
