(* ===== verification/Wg_Message.thy ===== *)
theory Wg_Message
  imports Prelude
begin

text \<open>
  Package \<open>wg\<close> (\<open>internal/wg/message.go\<close>): the WireGuard message types, the header
  word, the sender and receiver indices and the position of MAC1. The accessors take Go
  slices: \<open>SenderIndex\<close> and \<open>ReceiverIndex\<close> reslice up to a fixed offset, which is
  checked against the capacity, not the length.
\<close>

section \<open>Constants\<close>

definition TypeInit :: u32 where "TypeInit = 1"
definition TypeResponse :: u32 where "TypeResponse = 2"
definition TypeCookie :: u32 where "TypeCookie = 3"
definition TypeTransport :: u32 where "TypeTransport = 4"

definition SizeInit :: int where "SizeInit = 148"
definition SizeResponse :: int where "SizeResponse = 92"
definition SizeCookie :: int where "SizeCookie = 64"
definition SizeTransport :: int where "SizeTransport = 16"

definition mac1OffsetInit :: int where "mac1OffsetInit = 116"
definition mac1OffsetResponse :: int where "mac1OffsetResponse = 60"
definition MAC1Size :: int where "MAC1Size = 16"

lemmas wg_types [go_defs] = TypeInit_def TypeResponse_def TypeCookie_def TypeTransport_def
lemmas wg_sizes [go_defs] =
  SizeInit_def SizeResponse_def SizeCookie_def SizeTransport_def
  mac1OffsetInit_def mac1OffsetResponse_def MAC1Size_def

section \<open>Accessors\<close>

definition Type :: "gslice \<Rightarrow> u32 go" where
  "Type pkt = (if slen pkt < 4 then Some 0
     else do { h \<leftarrow> subslice pkt 0 4; get32 h })"

definition SetType :: "gslice \<Rightarrow> u32 \<Rightarrow> gslice go" where
  "SetType pkt t = do {
     h \<leftarrow> subslice pkt 0 4;
     h' \<leftarrow> put32 h t;
     Some (store_sub pkt 0 h') }"

definition SenderIndex :: "gslice \<Rightarrow> u32 go" where
  "SenderIndex pkt = do { h \<leftarrow> subslice pkt 4 8; get32 h }"

definition ReceiverIndex :: "gslice \<Rightarrow> u32 go" where
  "ReceiverIndex pkt = do {
     t \<leftarrow> Type pkt;
     if t = TypeResponse then do { h \<leftarrow> subslice pkt 8 12; get32 h }
     else if t = TypeCookie \<or> t = TypeTransport then do { h \<leftarrow> subslice pkt 4 8; get32 h }
     else Some 0 }"

definition MAC1Offset :: "u32 \<Rightarrow> int option" where
  "MAC1Offset t =
     (if t = TypeInit then Some mac1OffsetInit
      else if t = TypeResponse then Some mac1OffsetResponse
      else None)"

section \<open>Lemmas\<close>

text \<open>A message with its header word replaced.\<close>

definition retype :: "u32 \<Rightarrow> bytes \<Rightarrow> bytes" where
  "retype t m = le32_bytes t @ drop 4 m"

lemma Type_gs [gs_simps]:
  "Type (gs bs rest) = Some (if length bs < 4 then 0 else head32 bs)"
  by (simp add: Type_def gs_simps)

lemma length_retype [simp]: "4 \<le> length m \<Longrightarrow> length (retype t m) = length m"
  by (simp add: retype_def)

lemma head32_retype [simp]: "head32 (retype t m) = t"
  by (simp add: retype_def)

lemma retype_retype [simp]: "retype t (retype u m) = retype t m"
  by (simp add: retype_def)

lemma SetType_gs [gs_simps]:
  "4 \<le> length bs \<Longrightarrow> SetType (gs bs rest) t = Some (gs (retype t bs) rest)"
  by (simp add: SetType_def gs_simps retype_def)

text \<open>The two index readers panic exactly when the backing array is too short: the length
  of the packet plays no part.\<close>

lemma SenderIndex_panics: "SenderIndex s = None \<longleftrightarrow> length (arr s) < 8"
  by (auto simp: SenderIndex_def go_defs)

lemma SenderIndex_arr:
  "8 \<le> length (arr s) \<Longrightarrow> SenderIndex s = Some (head32 (drop 4 (arr s)))"
  by (simp add: SenderIndex_def go_defs head32_def)

lemma get32_window:
  "0 \<le> lo \<Longrightarrow> lo + 4 \<le> int (length (arr s)) \<Longrightarrow>
     Option.bind (subslice s lo (lo + 4)) get32 = Some (head32 (drop (nat lo) (arr s)))"
  by (simp add: subslice_def get32_def head32_def)

lemma ReceiverIndex_gs:
  "12 \<le> length bs + length rest \<Longrightarrow> ReceiverIndex (gs bs rest) = Some
     (let t = (if length bs < 4 then 0 else head32 bs) in
      if t = TypeResponse then head32 (drop 8 (bs @ rest))
      else if t = TypeCookie \<or> t = TypeTransport then head32 (drop 4 (bs @ rest))
      else 0)"
  using get32_window [of 8 "gs bs rest"] get32_window [of 4 "gs bs rest"]
  by (simp add: ReceiverIndex_def gs_simps Let_def)

lemma MAC1Offset_bounds: "MAC1Offset t = Some mo \<Longrightarrow> 4 \<le> mo \<and> mo \<le> 116"
  by (auto simp: MAC1Offset_def wg_sizes split: if_splits)

end
