(* ===== verification/Awg_Transform.thy ===== *)
theory Awg_Transform
  imports Wg_Message
begin

text \<open>
  Package \<open>awg\<close>, files \<open>mac.go\<close> and \<open>transform.go\<close>: the keyed MAC1, the classification
  of incoming obfuscated packets and the two directions of the transformation. The hash
  functions are third-party code (\<open>golang.org/x/crypto\<close>) and are parameters, the fields
  of \<open>xcrypto\<close>; random bytes are parameters too.
\<close>

section \<open>Parameters: the cryptographic library\<close>

record xcrypto =
  blake2s_256 :: "bytes \<Rightarrow> bytes"              \<comment> \<open>\<open>blake2s.New256(nil)\<close> over the message\<close>
  blake2s_mac128 :: "bytes \<Rightarrow> bytes \<Rightarrow> bytes"  \<comment> \<open>\<open>blake2s.New128(key)\<close> over the message\<close>
  x25519 :: "bytes \<Rightarrow> bytes \<Rightarrow> bytes option"   \<comment> \<open>\<open>curve25519.X25519(scalar, point)\<close>\<close>
  aead_open :: "bytes \<Rightarrow> bytes \<Rightarrow> bytes \<Rightarrow> bytes \<Rightarrow> bytes option"
    \<comment> \<open>\<open>chacha20poly1305\<close> \<open>Open\<close>: key, nonce, ciphertext, additional data\<close>

text \<open>Documented output lengths of the two hash functions.\<close>

definition mac_sized :: "xcrypto \<Rightarrow> bool" where
  "mac_sized cr \<longleftrightarrow> (\<forall>k m. length (blake2s_mac128 cr k m) = 16)"

section \<open>mac.go\<close>

text \<open>The bytes of \<open>mac1----\<close>.\<close>

definition labelMAC1 :: bytes where
  "labelMAC1 = [0x6d, 0x61, 0x63, 0x31, 0x2d, 0x2d, 0x2d, 0x2d]"

definition mac1Key :: "xcrypto \<Rightarrow> bytes \<Rightarrow> bytes" where
  "mac1Key cr pub = blake2s_256 cr (labelMAC1 @ pub)"

definition ComputeMAC1 :: "xcrypto \<Rightarrow> bytes \<Rightarrow> bytes \<Rightarrow> bytes" where
  "ComputeMAC1 cr pub msg = blake2s_mac128 cr (mac1Key cr pub) msg"

lemma length_ComputeMAC1 [simp]: "mac_sized cr \<Longrightarrow> length (ComputeMAC1 cr pub msg) = 16"
  by (simp add: ComputeMAC1_def mac_sized_def)

section \<open>transform.go\<close>

record Params =
  pH1 :: u32
  pH2 :: u32
  pH3 :: u32
  pH4 :: u32
  pS1 :: int
  pS2 :: int
  pJc :: int
  pJmin :: int
  pJmax :: int

definition hFor :: "Params \<Rightarrow> u32 \<Rightarrow> u32" where
  "hFor p t =
     (if t = TypeInit then pH1 p
      else if t = TypeResponse then pH2 p
      else if t = TypeCookie then pH3 p
      else pH4 p)"

definition prefixFor :: "Params \<Rightarrow> u32 \<Rightarrow> int" where
  "prefixFor p t =
     (if t = TypeInit then pS1 p
      else if t = TypeResponse then pS2 p
      else 0)"

text \<open>\<open>len(pkt) >= off+4 && LittleEndian.Uint32(pkt[off:off+4]) == h\<close>.\<close>

definition header_at :: "gslice \<Rightarrow> int \<Rightarrow> u32 \<Rightarrow> bool go" where
  "header_at pkt off h =
     (if wrap64 (off + 4) \<le> int (slen pkt)
      then do { d \<leftarrow> subslice pkt off (wrap64 (off + 4)); v \<leftarrow> get32 d; Some (v = h) }
      else Some False)"

text \<open>\<open>classify\<close>: \<open>Some (Some (typ, offset))\<close> is \<open>ok\<close>, \<open>Some None\<close> is a junk packet.\<close>

definition classify :: "Params \<Rightarrow> gslice \<Rightarrow> (u32 \<times> int) option go" where
  "classify p pkt =
     (if slen pkt < 4 then Some None
      else do {
        h \<leftarrow> subslice pkt 0 4;
        v \<leftarrow> get32 h;
        if v = pH4 p then Some (Some (TypeTransport, 0))
        else if v = pH3 p then Some (Some (TypeCookie, 0))
        else do {
          isInit \<leftarrow> header_at pkt (pS1 p) (pH1 p);
          if isInit then Some (Some (TypeInit, pS1 p))
          else do {
            isResp \<leftarrow> header_at pkt (pS2 p) (pH2 p);
            if isResp then Some (Some (TypeResponse, pS2 p))
            else Some None } } })"

text \<open>The MAC1 block both directions share: if the type has a MAC1 field and the message
  reaches past it, recompute it over the bytes before it.\<close>

definition patch_mac1 :: "xcrypto \<Rightarrow> bytes \<Rightarrow> u32 \<Rightarrow> gslice \<Rightarrow> gslice go" where
  "patch_mac1 cr pub typ msg =
     (case MAC1Offset typ of
        None \<Rightarrow> Some msg
      | Some mo \<Rightarrow>
          if mo + MAC1Size \<le> int (slen msg)
          then do {
            pre \<leftarrow> subslice msg 0 mo;
            d \<leftarrow> subslice msg mo (mo + MAC1Size);
            Some (store_sub msg mo (copy_into d (ComputeMAC1 cr pub (view pre)))) }
          else Some msg)"

text \<open>\<open>Deobfuscate\<close> returns a subslice of its argument and writes through it; the mutated
  backing array is the \<open>arr\<close> of the result (it reaches to the end of the array).\<close>

definition Deobfuscate :: "xcrypto \<Rightarrow> Params \<Rightarrow> gslice \<Rightarrow> bytes \<Rightarrow> (gslice \<times> u32) option go" where
  "Deobfuscate cr p pkt recipientPub = do {
     c \<leftarrow> classify p pkt;
     (case c of
        None \<Rightarrow> Some None
      | Some (typ, off) \<Rightarrow> do {
          plain \<leftarrow> slice_from pkt off;
          if slen plain < 4 then Some None
          else do {
            plain1 \<leftarrow> SetType plain typ;
            plain2 \<leftarrow> patch_mac1 cr recipientPub typ plain1;
            Some (Some (plain2, typ)) } }) }"

text \<open>\<open>Obfuscate\<close> builds a new buffer; \<open>rnd n\<close> are the \<open>n\<close> bytes \<open>crand.Read\<close> puts
  into the junk prefix.\<close>

definition Obfuscate ::
  "xcrypto \<Rightarrow> (nat \<Rightarrow> bytes) \<Rightarrow> Params \<Rightarrow> gslice \<Rightarrow> bytes \<Rightarrow> gslice go" where
  "Obfuscate cr rnd p plain recipientPub = do {
     typ \<leftarrow> Type plain;
     let prefix = prefixFor p typ;
     out \<leftarrow> make_bytes (wrap64 (prefix + int (slen plain)));
     out1 \<leftarrow> (if prefix > 0
       then do { d \<leftarrow> subslice out 0 prefix;
                 Some (store_sub out 0 (copy_into d (rnd (slen d)))) }
       else Some out);
     d \<leftarrow> slice_from out1 prefix;
     let out2 = store_sub out1 prefix (copy_into d (view plain));
     msg \<leftarrow> slice_from out2 prefix;
     h \<leftarrow> subslice msg 0 4;
     h' \<leftarrow> put32 h (hFor p typ);
     msg' \<leftarrow> patch_mac1 cr recipientPub typ (store_sub msg 0 h');
     Some (store_sub out2 prefix msg') }"

text \<open>\<open>JunkPackets\<close>: \<open>intN i b\<close> is the \<open>i\<close>-th draw of \<open>mrand.IntN(b)\<close>, \<open>rnd i n\<close> the
  bytes \<open>crand.Read\<close> puts into the \<open>i\<close>-th packet. \<open>mrand.IntN\<close> panics on a bound that is
  not positive.\<close>

definition junk_packet ::
  "(nat \<Rightarrow> int \<Rightarrow> int) \<Rightarrow> (nat \<Rightarrow> nat \<Rightarrow> bytes) \<Rightarrow> Params \<Rightarrow> nat \<Rightarrow> bytes go" where
  "junk_packet intN rnd p i = do {
     n \<leftarrow> (if pJmax p > pJmin p
       then (let b = wrap64 (wrap64 (pJmax p - pJmin p) + 1) in
             if b \<le> 0 then None else Some (wrap64 (pJmin p + intN i b)))
       else Some (pJmin p));
     b \<leftarrow> make_bytes n;
     Some (view (copy_into b (rnd i (slen b)))) }"

fun junk_loop ::
  "(nat \<Rightarrow> int \<Rightarrow> int) \<Rightarrow> (nat \<Rightarrow> nat \<Rightarrow> bytes) \<Rightarrow> Params \<Rightarrow> nat list \<Rightarrow> bytes list go" where
  "junk_loop intN rnd p [] = Some []"
| "junk_loop intN rnd p (i # is) = do {
     b \<leftarrow> junk_packet intN rnd p i;
     bs \<leftarrow> junk_loop intN rnd p is;
     Some (b # bs) }"

definition JunkPackets ::
  "(nat \<Rightarrow> int \<Rightarrow> int) \<Rightarrow> (nat \<Rightarrow> nat \<Rightarrow> bytes) \<Rightarrow> Params \<Rightarrow> bytes list go" where
  "JunkPackets intN rnd p =
     (if pJc p \<le> 0 then Some [] else junk_loop intN rnd p [0..<nat (pJc p)])"

section \<open>Reference form of the transformation, on plain byte lists\<close>

definition remac :: "xcrypto \<Rightarrow> bytes \<Rightarrow> u32 \<Rightarrow> bytes \<Rightarrow> bytes" where
  "remac cr pub typ m =
     (case MAC1Offset typ of
        None \<Rightarrow> m
      | Some mo \<Rightarrow>
          if mo + MAC1Size \<le> int (length m)
          then take (nat mo) m @ ComputeMAC1 cr pub (take (nat mo) m) @ drop (nat mo + 16) m
          else m)"

definition obf_msg :: "xcrypto \<Rightarrow> Params \<Rightarrow> bytes \<Rightarrow> bytes \<Rightarrow> bytes" where
  "obf_msg cr p pub m = remac cr pub (head32 m) (retype (hFor p (head32 m)) m)"

text \<open>The message carries a MAC1 that is right for \<open>pub\<close> (or has no MAC1 field).\<close>

definition mac1_valid :: "xcrypto \<Rightarrow> bytes \<Rightarrow> bytes \<Rightarrow> bool" where
  "mac1_valid cr pub m \<longleftrightarrow>
     (case MAC1Offset (head32 m) of
        None \<Rightarrow> True
      | Some mo \<Rightarrow> mo + MAC1Size \<le> int (length m) \<longrightarrow>
          take 16 (drop (nat mo) m) = ComputeMAC1 cr pub (take (nat mo) m))"

text \<open>The wire bytes \<open>b\<close> of a message of type \<open>t\<close> are not taken for another type: no
  header tested before its own matches.\<close>

definition unambiguous :: "Params \<Rightarrow> u32 \<Rightarrow> bytes \<Rightarrow> bool" where
  "unambiguous p t b \<longleftrightarrow>
     (t = TypeCookie \<longrightarrow> pH3 p \<noteq> pH4 p) \<and>
     (t = TypeInit \<or> t = TypeResponse \<longrightarrow> head32 b \<noteq> pH4 p \<and> head32 b \<noteq> pH3 p) \<and>
     (t = TypeResponse \<longrightarrow>
        \<not> (pS1 p + 4 \<le> int (length b) \<and> head32 (drop (nat (pS1 p)) b) = pH1 p))"

definition sizes_ok :: "Params \<Rightarrow> bool" where
  "sizes_ok p \<longleftrightarrow> 0 \<le> pS1 p \<and> pS1 p < 2 ^ 62 \<and> 0 \<le> pS2 p \<and> pS2 p < 2 ^ 62"

section \<open>The code on normal forms\<close>

lemma length_remac [simp]: "mac_sized cr \<Longrightarrow> length (remac cr pub t m) = length m"
  by (auto simp: remac_def MAC1Offset_def wg_sizes split: option.splits)

lemma patch_mac1_gs [gs_simps]:
  "mac_sized cr \<Longrightarrow> patch_mac1 cr pub t (gs bs rest) = Some (gs (remac cr pub t bs) rest)"
  by (auto simp: patch_mac1_def remac_def MAC1Offset_def wg_sizes gs_simps)

lemma header_at_gs [gs_simps]:
  "0 \<le> off \<Longrightarrow> off < 2 ^ 62 \<Longrightarrow> header_at (gs bs rest) off h =
     Some (off + 4 \<le> int (length bs) \<and> head32 (drop (nat off) bs) = h)"
  by (auto simp: header_at_def gs_simps)

text \<open>A negative offset panics as soon as the packet has four bytes.\<close>

lemma header_at_negative:
  "off < 0 \<Longrightarrow> - (2 ^ 62) \<le> off \<Longrightarrow> 4 \<le> slen s \<Longrightarrow> header_at s off h = None"
  by (simp add: header_at_def subslice_def)

lemma classify_gs:
  "sizes_ok p \<Longrightarrow> classify p (gs bs rest) = Some
     (if length bs < 4 then None
      else if head32 bs = pH4 p then Some (TypeTransport, 0)
      else if head32 bs = pH3 p then Some (TypeCookie, 0)
      else if pS1 p + 4 \<le> int (length bs) \<and> head32 (drop (nat (pS1 p)) bs) = pH1 p
      then Some (TypeInit, pS1 p)
      else if pS2 p + 4 \<le> int (length bs) \<and> head32 (drop (nat (pS2 p)) bs) = pH2 p
      then Some (TypeResponse, pS2 p)
      else None)"
  by (auto simp: classify_def gs_simps sizes_ok_def)

lemma Deobfuscate_gs:
  assumes "mac_sized cr" "sizes_ok p"
  shows "Deobfuscate cr p (gs bs rest) pub = Some
    (case classify p (gs bs rest) of
       Some (Some (t, off)) \<Rightarrow>
         Some (gs (remac cr pub t (retype t (drop (nat off) bs))) rest, t)
     | _ \<Rightarrow> None)"
  using assms by (auto simp: Deobfuscate_def classify_gs gs_simps sizes_ok_def)

lemma prefixFor_range:
  "sizes_ok p \<Longrightarrow> 0 \<le> prefixFor p t \<and> prefixFor p t < 2 ^ 62"
  by (simp add: prefixFor_def sizes_ok_def)

lemma Obfuscate_gs:
  assumes "mac_sized cr" "sizes_ok p" "4 \<le> length m" "int (length m) < 2 ^ 62"
    "\<And>n. length (rnd n) = n"
  shows "Obfuscate cr rnd p (gs m rest) pub =
    Some (gs (rnd (nat (prefixFor p (head32 m))) @ obf_msg cr p pub m) [])"
proof -
  obtain k where k: "prefixFor p (head32 m) = int k" "int k < 2 ^ 62"
    using assms(2) by (metis (no_types) prefixFor_range zero_le_imp_eq_int)
  have make: "make_bytes (int k + int (length m)) =
      Some (gs (replicate k 0 @ replicate (length m) 0) [])"
    by (simp add: make_bytes_def gs_simps replicate_add flip: of_nat_add)
  have "rnd 0 = []" using assms(5) [of 0] by simp
  with assms k show ?thesis
    by (cases "k = 0") (simp_all add: gs_make Obfuscate_def gs_simps make Let_def obf_msg_def retype_def)
qed
lemma remac_retype_remac:
  assumes "mac_sized cr" "4 \<le> length m"
  shows "remac cr pub' t (retype a (remac cr pub t m)) = remac cr pub' t (retype a m)"
  using assms
  by (auto simp: remac_def retype_def MAC1Offset_def wg_sizes drop_take split: option.splits if_splits)

lemma retype_same [simp]: "4 \<le> length m \<Longrightarrow> retype (head32 m) m = m"
  by (simp add: retype_def le32_bytes_head32)

lemma remac_valid: 
  assumes "mac1_valid cr pub m" "mac_sized cr"
  shows "remac cr pub (head32 m) m = m"
proof (cases "MAC1Offset (head32 m)")
  case (Some mo)
  have "take (nat mo) m @ take 16 (drop (nat mo) m) @ drop (nat mo + 16) m = m"
    by (metis add.commute append_take_drop_id drop_drop)
  then show ?thesis using assms Some by (auto simp: remac_def mac1_valid_def wg_sizes)
qed (simp add: remac_def)

lemma mac1_valid_remac:
  assumes "mac_sized cr" "4 \<le> length m" 
  shows "mac1_valid cr pub (remac cr pub (head32 m) m)"
  using assms
  by (auto simp: mac1_valid_def remac_def MAC1Offset_def wg_sizes head32_def nth_append split: option.splits if_splits)

lemma head32_remac [simp]: "mac_sized cr \<Longrightarrow> 4 \<le> length m \<Longrightarrow> head32 (remac cr pub t m) = head32 m"
  by (auto simp: remac_def MAC1Offset_def wg_sizes head32_def nth_append split: option.splits if_splits)

lemma head32_append: "4 \<le> length m \<Longrightarrow> head32 (m @ r) = head32 m"
  by (auto simp add: head32_def nth_append)

lemma length_obf_msg: "mac_sized cr \<Longrightarrow> 4 \<le> length m \<Longrightarrow> length (obf_msg cr p pub m) = length m"
  by (simp add: obf_msg_def)

lemma head32_obf_msg:
  "mac_sized cr \<Longrightarrow> 4 \<le> length m \<Longrightarrow> head32 (obf_msg cr p pub m) = hFor p (head32 m)"
  by (simp add: obf_msg_def)

lemma classify_wire:
  assumes "sizes_ok p" "head32 m \<in> {TypeInit, TypeResponse, TypeCookie, TypeTransport}"
    and "mac_sized cr" "4 \<le> length m" "length pre = nat (prefixFor p (head32 m))"
    and "unambiguous p (head32 m) (pre @ obf_msg cr p pub m)"
  shows "classify p (gs (pre @ obf_msg cr p pub m) rest) =
    Some (Some (head32 m, prefixFor p (head32 m)))"
proof -
  let ?w = "pre @ obf_msg cr p pub m"
  have s: "0 \<le> pS1 p" "0 \<le> pS2 p" using assms(1) by (simp_all add: sizes_ok_def)
  have l: "length (obf_msg cr p pub m) = length m"
    and h: "head32 (obf_msg cr p pub m) = hFor p (head32 m)"
    using assms(3,4) by (simp_all add: length_obf_msg head32_obf_msg)
  from assms(2) consider "head32 m = 1" | "head32 m = 2" | "head32 m = 3" | "head32 m = 4"
    by (auto simp: wg_types)
  then show ?thesis
    by cases (use assms s l h in \<open>simp add: classify_gs hFor_def prefixFor_def
        unambiguous_def wg_types\<close>)+
qed

text \<open>What comes off the wire of an obfuscated message is the message, when its MAC1 is right
  for the receiving side.\<close>

lemma Deobfuscate_wire:
  assumes "mac_sized cr" "sizes_ok p" "4 \<le> length m"
    and "head32 m \<in> {TypeInit, TypeResponse, TypeCookie, TypeTransport}"
    and "length pre = nat (prefixFor p (head32 m))"
    and "unambiguous p (head32 m) (pre @ obf_msg cr p pub m)" "mac1_valid cr pub' m"
  shows "Deobfuscate cr p (gs (pre @ obf_msg cr p pub m) rest) pub' = Some (Some (gs m rest, head32 m))"
proof -
  have "remac cr pub' (head32 m) (retype (head32 m) (obf_msg cr p pub m)) = m"
    using assms by (simp add: obf_msg_def remac_retype_remac remac_valid)
  then show ?thesis
    using assms by (simp add: Deobfuscate_gs classify_wire)
qed

text \<open>The shape of what deobfuscation lets through.\<close>

lemma Deobfuscate_cases:
  assumes "mac_sized cr" "sizes_ok p"
    and "Deobfuscate cr p (gs bs rest) pub = Some (Some (s, t))"
  obtains off where "s = gs (remac cr pub t (retype t (drop off bs))) rest" "off + 4 \<le> length bs"
    "off \<in> {0, nat (pS1 p), nat (pS2 p)}" "t = TypeInit \<longrightarrow> off = nat (pS1 p)"
    "head32 (drop off bs) = hFor p t" "t \<in> {TypeInit, TypeResponse, TypeCookie, TypeTransport}"
proof -
  from assms obtain off where c: "classify p (gs bs rest) = Some (Some (t, off))"
    and s: "s = gs (remac cr pub t (retype t (drop (nat off) bs))) rest"
    by (auto simp: Deobfuscate_gs split: option.splits prod.splits)
  have "nat off + 4 \<le> length bs" "nat off \<in> {0, nat (pS1 p), nat (pS2 p)}"
    "t = TypeInit \<longrightarrow> nat off = nat (pS1 p)"
    "head32 (drop (nat off) bs) = hFor p t" "t \<in> {TypeInit, TypeResponse, TypeCookie, TypeTransport}"
    using c assms(2) by (auto simp: classify_gs hFor_def wg_types sizes_ok_def split: if_splits)
  with s show thesis by (intro that)
qed

section \<open>A concrete instance, for the witnesses\<close>

text \<open>A toy instance of the cryptographic parameters, the parameters of
  \<open>transform_test.go\<close> and a handshake initiation of 148 bytes with a valid MAC1.\<close>

definition demo_crypto :: xcrypto where
  "demo_crypto = \<lparr>
     blake2s_256 = (\<lambda>m. take 32 (m @ replicate 32 0)),
     blake2s_mac128 = (\<lambda>k m. take 16 (k @ replicate 16 (of_nat (length m)))),
     x25519 = (\<lambda>a b. Some (map2 (+) a b)),
     aead_open = (\<lambda>k n c a. if drop 32 c = take 16 (k @ replicate 16 0) then Some (take 32 c) else None)\<rparr>"

lemma demo_crypto_sized [simp]: "mac_sized demo_crypto"
  by (simp add: mac_sized_def demo_crypto_def min_def)

definition demo_params :: Params where
  "demo_params = \<lparr>pH1 = 0xCAFEBABE, pH2 = 0xDEADBEEF, pH3 = 0x11112222, pH4 = 0x33334444,
     pS1 = 16, pS2 = 24, pJc = 3, pJmin = 40, pJmax = 70\<rparr>"

lemma demo_params_ok [simp]: "sizes_ok demo_params"
  by (simp add: sizes_ok_def demo_params_def)

definition demo_init :: bytes where
  "demo_init = (let m = le32_bytes 1 @ replicate 112 7 in
     m @ ComputeMAC1 demo_crypto (replicate 32 5) m @ replicate 16 0)"

lemma demo_init_facts:
  "head32 demo_init = TypeInit" "length demo_init = 148"
  "mac1_valid demo_crypto (replicate 32 5) demo_init" "head32 (drop 4 demo_init) = 0x07070707"
proof -
  show h: "head32 demo_init = TypeInit" "length demo_init = 148"
    by (simp_all add: demo_init_def wg_types Let_def)
  show "mac1_valid demo_crypto (replicate 32 5) demo_init"
    unfolding mac1_valid_def h
    by (simp add: demo_init_def MAC1Offset_def wg_sizes Let_def ComputeMAC1_def mac1Key_def demo_crypto_def)
  show "head32 (drop 4 demo_init) = 0x07070707"
    by (simp add: demo_init_def Let_def head32_def le32_of_def nth_append)
qed

definition demo_wire :: bytes where
  "demo_wire = replicate 16 9 @ obf_msg demo_crypto demo_params (replicate 32 6) demo_init"

lemma demo_wire_facts: "unambiguous demo_params TypeInit demo_wire" "length demo_wire = 164"
proof -
  show "unambiguous demo_params TypeInit demo_wire"
    by (simp add: demo_wire_def unambiguous_def head32_append head32_def demo_params_def wg_types) code_simp
  show "length demo_wire = 164" by (simp add: demo_wire_def length_obf_msg demo_init_facts)
qed

section \<open>Properties\<close>





text \<open>
  C4. Deobfuscation never panics when the prefix sizes are not negative, on any packet
  and any capacity, and it drops a packet exactly when it is shorter than a header or no
  magic header matches at its place.
\<close>

theorem Deobfuscate_total:
  assumes "mac_sized cr" "sizes_ok p" "wf_slice s"
  shows "\<exists>r. Deobfuscate cr p s pub = Some r \<and>
    (r = None \<longleftrightarrow> slen s < 4 \<or>
       (head32 (view s) \<notin> {pH3 p, pH4 p} \<and>
        \<not> (pS1 p + 4 \<le> int (slen s) \<and> head32 (drop (nat (pS1 p)) (view s)) = pH1 p) \<and>
        \<not> (pS2 p + 4 \<le> int (slen s) \<and> head32 (drop (nat (pS2 p)) (view s)) = pH2 p)))"
  using assms(3)
proof (rule gs_cases)
  fix bs rest assume "s = gs bs rest"
  with assms(1,2) show ?thesis by (simp add: Deobfuscate_gs classify_gs gs_simps)
qed

theorem Deobfuscate_total_witness:
  "\<exists>r. Deobfuscate demo_crypto demo_params (gs (replicate 64 0xFF) []) (replicate 32 0) = Some r \<and>
     r = None"
  using Deobfuscate_total [OF demo_crypto_sized demo_params_ok,
      where s = "gs (replicate 64 0xFF) []" and pub = "replicate 32 0"]
  by (auto simp: gs_simps demo_params_def head32_def le32_of_def)

text \<open>
  C2. What deobfuscation lets through is the suffix of the packet at offset 0, \<open>S1\<close> or
  \<open>S2\<close> whose header word is the magic one for the type returned, with the standard type
  written, every other byte kept outside MAC1, and a MAC1 that verifies under the
  recipient's key; the rest of the receive buffer is untouched.
\<close>

theorem Deobfuscate_sound:
  assumes "mac_sized cr" "sizes_ok p"
    and "Deobfuscate cr p (gs bs rest) pub = Some (Some (s, t))"
  shows "\<exists>off m. s = gs m rest \<and> off \<in> {0, nat (pS1 p), nat (pS2 p)} \<and>
    off + 4 \<le> length bs \<and> head32 (drop off bs) = hFor p t \<and>
    t \<in> {TypeInit, TypeResponse, TypeCookie, TypeTransport} \<and>
    m = remac cr pub t (retype t (drop off bs)) \<and>
    length m = length bs - off \<and> head32 m = t \<and> mac1_valid cr pub m"
proof -
  from assms obtain off where *: "s = gs (remac cr pub t (retype t (drop off bs))) rest"
    "off + 4 \<le> length bs" "off \<in> {0, nat (pS1 p), nat (pS2 p)}" "head32 (drop off bs) = hFor p t"
    "t \<in> {TypeInit, TypeResponse, TypeCookie, TypeTransport}"
    by (rule Deobfuscate_cases)
  let ?m = "retype t (drop off bs)"
  have "mac1_valid cr pub (remac cr pub (head32 ?m) ?m)"
    using * assms(1) by (intro mac1_valid_remac) auto
  then show ?thesis using * assms(1)
    by (intro exI [of _ off] exI [of _ "remac cr pub t ?m"]) simp
qed

lemma demo_transport:
  "Deobfuscate demo_crypto demo_params (gs (le32_bytes 0x33334444 @ [7, 8]) []) [] =
     Some (Some (gs (le32_bytes 4 @ [7, 8]) [], TypeTransport))"
  by (simp add: Deobfuscate_gs classify_gs remac_def MAC1Offset_def wg_types retype_def)
     (simp add: demo_params_def)

theorem Deobfuscate_sound_witness:
  "\<exists>off m. gs (le32_bytes 4 @ [7, 8]) [] = gs m [] \<and>
     off + 4 \<le> length (le32_bytes 0x33334444 @ [7, 8]) \<and> head32 m = TypeTransport"
  using Deobfuscate_sound [OF demo_crypto_sized demo_params_ok demo_transport] by blast

text \<open>The junk loop under the range the configuration should have, whatever the draws.\<close>

definition junk_ok :: "Params \<Rightarrow> bool" where
  "junk_ok p \<longleftrightarrow> 0 \<le> pJmin p \<and> pJmin p \<le> pJmax p \<and> pJmax p < 2 ^ 62"

definition draws_ok :: "(nat \<Rightarrow> int \<Rightarrow> int) \<Rightarrow> (nat \<Rightarrow> nat \<Rightarrow> bytes) \<Rightarrow> bool" where
  "draws_ok intN rnd \<longleftrightarrow>
     (\<forall>i b. 0 < b \<longrightarrow> 0 \<le> intN i b \<and> intN i b < b) \<and> (\<forall>i n. length (rnd i n) = n)"

lemma junk_packet_range:
  assumes "junk_ok p" "draws_ok intN rnd"
  obtains b where "junk_packet intN rnd p i = Some b" "pJmin p \<le> int (length b)" "int (length b) \<le> pJmax p"
proof (cases "pJmax p > pJmin p")
  case True
  define d where "d = intN i (pJmax p - pJmin p + 1)"
  have "0 < pJmax p - pJmin p + 1" using True by simp
  then have "0 \<le> d" "d < pJmax p - pJmin p + 1"
    unfolding d_def using assms(2) by (simp_all only: draws_ok_def)
  then show thesis using assms True that
    by (auto simp: junk_packet_def make_bytes_def gs_simps junk_ok_def draws_ok_def simp flip: d_def)
next
  case False
  with assms show thesis
    by (intro that [of "rnd i (nat (pJmin p))"])
       (auto simp: junk_packet_def make_bytes_def gs_simps junk_ok_def draws_ok_def)
qed

lemma junk_loop_range:
  assumes "junk_ok p" "draws_ok intN rnd"
  obtains ps where "junk_loop intN rnd p js = Some ps" "length ps = length js"
    "\<forall>b \<in> set ps. pJmin p \<le> int (length b) \<and> int (length b) \<le> pJmax p"
proof (induction js arbitrary: thesis)
  case (Cons i js)
  obtain ps where "junk_loop intN rnd p js = Some ps" "length ps = length js"
    "\<forall>b \<in> set ps. pJmin p \<le> int (length b) \<and> int (length b) \<le> pJmax p" using Cons.IH .
  moreover obtain b where "junk_packet intN rnd p i = Some b" "pJmin p \<le> int (length b)"
    "int (length b) \<le> pJmax p" using junk_packet_range [OF assms] .
  ultimately show ?case by (intro Cons.prems [of "b # ps"]) simp_all
qed simp

lemma JunkPackets_range:
  assumes "junk_ok p" "draws_ok intN rnd"
  obtains ps where "JunkPackets intN rnd p = Some ps" "length ps = nat (pJc p)"
    "\<forall>b \<in> set ps. pJmin p \<le> int (length b) \<and> int (length b) \<le> pJmax p"
proof -
  obtain ps where "junk_loop intN rnd p [0..<nat (pJc p)] = Some ps" "length ps = nat (pJc p)"
    "\<forall>b \<in> set ps. pJmin p \<le> int (length b) \<and> int (length b) \<le> pJmax p"
    using junk_loop_range [OF assms, of "[0..<nat (pJc p)]"] by auto
  then show thesis by (intro that) (auto simp: JunkPackets_def)
qed

text \<open>
  C25. With \<open>0 <= Jmin <= Jmax\<close>, exactly \<open>max 0 Jc\<close> junk packets are produced, each of a
  length in \<open>[Jmin, Jmax]\<close>, whatever the random draws (\<open>TestJunkPackets\<close>).
\<close>

theorem JunkPackets_bounds:
  assumes "0 \<le> pJmin p" "pJmin p \<le> pJmax p" "pJmax p < 2 ^ 62" 
    and "\<And>i b. 0 < b \<Longrightarrow> 0 \<le> intN i b \<and> intN i b < b"
    and "\<And>i n. length (rnd i n) = n"
  shows "\<exists>ps. JunkPackets intN rnd p = Some ps \<and> length ps = nat (pJc p) \<and>
    (\<forall>b \<in> set ps. pJmin p \<le> int (length b) \<and> int (length b) \<le> pJmax p)"
proof -
  have "junk_ok p" "draws_ok intN rnd" using assms by (simp_all add: junk_ok_def draws_ok_def)
  then show ?thesis by (rule JunkPackets_range) blast
qed

theorem JunkPackets_bounds_witness:
  "\<exists>ps. JunkPackets (\<lambda>i b. 0) (\<lambda>i n. replicate n 1) demo_params = Some ps \<and> length ps = 3"
  using JunkPackets_bounds [of demo_params "\<lambda>i b. 0" "\<lambda>i n. replicate n 1"]
  by (auto simp: demo_params_def)

text \<open>A negative \<open>S1\<close> makes every packet of at least four bytes panic, unless its header is the
  transport or cookie one: the test \<open>len(pkt) >= S1+4\<close> does not protect \<open>pkt[S1:S1+4]\<close>.\<close>

lemma negative_prefix_panics:
  assumes "pS1 p < 0" "- (2 ^ 62) \<le> pS1 p" "wf_slice s" "4 \<le> slen s"
    and "head32 (view s) \<notin> {pH3 p, pH4 p}"
  shows "Deobfuscate cr p s pub = None"
  using assms(3)
proof (rule gs_cases)
  fix bs rest assume "s = gs bs rest"
  with assms show ?thesis
    by (simp add: Deobfuscate_def classify_def gs_simps header_at_negative)
qed

end
