(* ===== verification/Go_Strings.thy ===== *)
theory Go_Strings
  imports Prelude
begin

text \<open>
  What the program uses of Go's \<open>strings\<close>, \<open>strconv\<close> and \<open>net\<close> packages: strings are
  byte sequences (\<open>string\<close>, a character being a byte), an \<open>error\<close> result is \<open>None\<close> where
  the callers only test it.
\<close>

section \<open>Bytes of a string\<close>

text \<open>\<open>[]byte(s)\<close> and \<open>string(b)\<close>.\<close>

definition bytes_of :: "string \<Rightarrow> bytes" where
  "bytes_of s = map (\<lambda>c. of_nat (of_char c)) s"

definition string_of :: "bytes \<Rightarrow> string" where
  "string_of bs = map (\<lambda>b. char_of (unat b)) bs"

lemma string_of_bytes_of [simp]: "string_of (bytes_of s) = s"
proof -
  have "unat (of_nat (of_char c) :: byte) = of_char c" for c :: char
    by (simp add: unat_of_nat take_bit_eq_mod of_char_mod_256)
  then show ?thesis by (simp add: string_of_def bytes_of_def comp_def)
qed

lemma bytes_of_Nil [simp]: "bytes_of [] = []"
  by (simp add: bytes_of_def)

lemma length_bytes_of [simp]: "length (bytes_of s) = length s"
  by (simp add: bytes_of_def)

lemma length_string_of [simp]: "length (string_of s) = length s"
  by (simp add: string_of_def)

section \<open>strings\<close>

text \<open>The encodings of the white-space runes \<open>unicode.IsSpace\<close> accepts, in UTF-8.\<close>

definition space_seqs :: "nat list list" where
  "space_seqs = [[9], [10], [11], [12], [13], [32], [194, 133], [194, 160], [225, 154, 128]]
     @ map (\<lambda>b. [226, 128, b]) ([128..<139] @ [168, 169, 175])
     @ [[226, 129, 159], [227, 128, 128]]"

definition space_strings :: "string list" where
  "space_strings = map (map char_of) space_seqs"

definition has_prefix :: "string \<Rightarrow> string \<Rightarrow> bool" where
  "has_prefix s p \<longleftrightarrow> take (length p) s = p"

lemma has_prefix_shorter:
  "w \<noteq> [] \<Longrightarrow> has_prefix s w \<Longrightarrow> length (drop (length w) s) < length s"
  by (cases s) (auto simp: has_prefix_def)

function trim_prefixes :: "string list \<Rightarrow> string \<Rightarrow> string" where
  "trim_prefixes ws s =
     (case find (\<lambda>w. w \<noteq> [] \<and> has_prefix s w) ws of
        None \<Rightarrow> s
      | Some w \<Rightarrow> trim_prefixes ws (drop (length w) s))"
  by pat_completeness auto
termination
  by (relation "measure (\<lambda>(ws, s). length s)")
     (auto simp: find_Some_iff intro: has_prefix_shorter simp del: length_drop)

declare trim_prefixes.simps [simp del]

text \<open>\<open>strings.TrimSpace\<close>.\<close>

definition TrimSpace :: "string \<Rightarrow> string" where
  "TrimSpace s =
     rev (trim_prefixes (map rev space_strings) (rev (trim_prefixes space_strings s)))"

text \<open>\<open>strings.CutPrefix\<close> (\<open>None\<close> when the prefix is not there) and \<open>strings.IndexByte\<close>.\<close>

definition CutPrefix :: "string \<Rightarrow> string \<Rightarrow> string option" where
  "CutPrefix s p = (if has_prefix s p then Some (drop (length p) s) else None)"

fun index_byte :: "string \<Rightarrow> char \<Rightarrow> nat option" where
  "index_byte [] c = None"
| "index_byte (x # xs) c = (if x = c then Some 0 else map_option Suc (index_byte xs c))"

definition last_index_byte :: "string \<Rightarrow> char \<Rightarrow> nat option" where
  "last_index_byte s c = map_option (\<lambda>i. length s - 1 - i) (index_byte (rev s) c)"

section \<open>strconv\<close>

definition digit_val :: "char \<Rightarrow> nat option" where
  "digit_val c = (let n = of_char c :: nat in if 48 \<le> n \<and> n \<le> 57 then Some (n - 48) else None)"

fun digits_val :: "nat \<Rightarrow> string \<Rightarrow> nat option" where
  "digits_val acc [] = Some acc"
| "digits_val acc (c # cs) =
     (case digit_val c of None \<Rightarrow> None | Some d \<Rightarrow> digits_val (10 * acc + d) cs)"

text \<open>\<open>strconv.Atoi\<close>: value and whether the error is nil. Out of range the value is the
  nearest bound, on a syntax error it is 0.\<close>

definition Atoi :: "string \<Rightarrow> int \<times> bool" where
  "Atoi s =
     (let neg = (s \<noteq> [] \<and> hd s = CHR ''-'');
          ds = (if s \<noteq> [] \<and> (hd s = CHR ''-'' \<or> hd s = CHR ''+'') then List.tl s else s)
      in if ds = [] then (0, False)
         else case digits_val 0 ds of
           None \<Rightarrow> (0, False)
         | Some n \<Rightarrow>
             if neg then (if n \<le> 2 ^ 63 then (- int n, True) else (- (2 ^ 63), False))
             else (if n < 2 ^ 63 then (int n, True) else (2 ^ 63 - 1, False)))"

fun nat_digits :: "nat \<Rightarrow> string" where
  "nat_digits n =
     (if n < 10 then [char_of (48 + n)] else nat_digits (n div 10) @ [char_of (48 + n mod 10)])"

declare nat_digits.simps [simp del]

definition Itoa :: "int \<Rightarrow> string" where
  "Itoa x = (if x < 0 then CHR ''-'' # nat_digits (nat (- x)) else nat_digits (nat x))"

section \<open>net\<close>

definition JoinHostPort :: "string \<Rightarrow> string \<Rightarrow> string" where
  "JoinHostPort host port =
     (if CHR '':'' \<in> set host then ''['' @ host @ '']:'' @ port else host @ '':'' @ port)"

text \<open>\<open>net.SplitHostPort\<close>: the last colon, brackets around a host with colons, no stray
  bracket.\<close>

definition SplitHostPort :: "string \<Rightarrow> (string \<times> string) option" where
  "SplitHostPort s =
     (case last_index_byte s CHR '':'' of
        None \<Rightarrow> None
      | Some i \<Rightarrow>
          (let parts =
             (if hd s = CHR ''['' then
                (case index_byte s CHR '']'' of
                   None \<Rightarrow> None
                 | Some e \<Rightarrow> if e + 1 = i then Some (take (e - 1) (drop 1 s), 1, e + 1) else None)
              else if CHR '':'' \<in> set (take i s) then None
              else Some (take i s, 0, 0))
           in case parts of
             None \<Rightarrow> None
           | Some (host, j, k) \<Rightarrow>
               if CHR ''['' \<in> set (drop j s) then None
               else if CHR '']'' \<in> set (drop k s) then None
               else Some (host, drop (i + 1) s)))"

section \<open>Lemmas\<close>

lemma digit_val_char [simp]: "d < 10 \<Longrightarrow> digit_val (char_of (48 + d)) = Some d"
  by (simp add: digit_val_def Let_def)

lemma digits_val_append:
  "digits_val acc (xs @ ys) = Option.bind (digits_val acc xs) (\<lambda>a. digits_val a ys)"
  by (induction xs arbitrary: acc) (auto split: option.splits)

lemma digits_val_nat_digits: "digits_val 0 (nat_digits n) = Some n"
proof (induction n rule: nat_digits.induct)
  case (1 n)
  then show ?case
    by (cases "n < 10") (simp_all add: nat_digits.simps [of n] digits_val_append)
qed

text \<open>A decimal digit: what the printer produces and the parsers accept.\<close>

definition is_digit :: "char \<Rightarrow> bool" where
  "is_digit c \<longleftrightarrow> (48 :: nat) \<le> of_char c \<and> of_char c \<le> (57 :: nat)"

lemma is_digit_char: "d < 10 \<Longrightarrow> is_digit (char_of (48 + d :: nat))"
  by (simp add: is_digit_def)

lemma nat_digits_digits: "c \<in> set (nat_digits n) \<Longrightarrow> is_digit c"
proof (induction n rule: nat_digits.induct)
  case (1 n)
  then show ?case
    by (cases "n < 10") (auto simp: nat_digits.simps [of n] is_digit_char)
qed

lemma nat_digits_nonempty [simp]: "nat_digits n \<noteq> []"
  by (simp add: nat_digits.simps [of n])

lemma not_digit: "\<not> is_digit CHR ''-''" "\<not> is_digit CHR ''+''" "\<not> is_digit CHR '':''"
    "\<not> is_digit CHR ''[''" "\<not> is_digit CHR '']''" "\<not> is_digit CHR ''.''" "\<not> is_digit CHR ''/''"
  by (simp_all add: is_digit_def)

lemma Atoi_Itoa:
  assumes "- (2 ^ 63) \<le> x" "x < 2 ^ 63"
  shows "Atoi (Itoa x) = (x, True)"
proof (cases "x < 0")
  case True
  with assms show ?thesis
    by (simp add: Atoi_def Itoa_def Let_def digits_val_nat_digits nat_le_iff)
next
  case False
  have "hd (nat_digits n) \<noteq> CHR ''-'' \<and> hd (nat_digits n) \<noteq> CHR ''+''" for n
    using nat_digits_digits [of "hd (nat_digits n)" n] not_digit by auto
  with False assms show ?thesis
    by (simp add: Atoi_def Itoa_def Let_def digits_val_nat_digits nat_less_iff)
qed

lemma index_byte_None: "index_byte s c = None \<longleftrightarrow> c \<notin> set s"
  by (induction s) auto

lemma index_byte_append: "c \<notin> set xs \<Longrightarrow> index_byte (xs @ c # ys) c = Some (length xs)"
  by (induction xs) auto

lemma last_index_byte_append:
  "c \<notin> set ys \<Longrightarrow> last_index_byte (xs @ c # ys) c = Some (length xs)"
  using index_byte_append [of c "rev ys" "rev xs"] by (simp add: last_index_byte_def)

text \<open>\<open>SplitHostPort\<close> undoes \<open>JoinHostPort\<close>, for a host without brackets.\<close>

lemma SplitHostPort_Join:
  assumes "set port \<inter> {CHR '':'', CHR ''['', CHR '']''} = {}"
    and "CHR ''['' \<notin> set host" "CHR '']'' \<notin> set host"
  shows "SplitHostPort (JoinHostPort host port) = Some (host, port)"
proof (cases "CHR '':'' \<in> set host")
  case True
  have "last_index_byte ((''['' @ host @ '']'') @ CHR '':'' # port) CHR '':'' =
      Some (length (''['' @ host @ '']''))"
    by (rule last_index_byte_append) (use assms(1) in auto)
  moreover have "index_byte ((CHR ''['' # host) @ CHR '']'' # CHR '':'' # port) CHR '']'' =
      Some (length (CHR ''['' # host))"
    by (rule index_byte_append) (use assms in auto)
  ultimately show ?thesis
    using assms True by (simp add: SplitHostPort_def JoinHostPort_def)
next
  case False
  have "last_index_byte (host @ CHR '':'' # port) CHR '':'' = Some (length host)"
    by (rule last_index_byte_append) (use assms(1) in auto)
  moreover have "hd (host @ CHR '':'' # port) \<noteq> CHR ''[''"
    using assms(2) by (cases host) auto
  ultimately show ?thesis
    using assms False by (simp add: SplitHostPort_def JoinHostPort_def)
qed

lemma trim_prefixes_none:
  "(\<And>w. w \<in> set ws \<Longrightarrow> w \<noteq> [] \<Longrightarrow> \<not> has_prefix s w) \<Longrightarrow> trim_prefixes ws s = s"
proof -
  assume "\<And>w. w \<in> set ws \<Longrightarrow> w \<noteq> [] \<Longrightarrow> \<not> has_prefix s w"
  then have "find (\<lambda>w. w \<noteq> [] \<and> has_prefix s w) ws = None" by (auto simp: find_None_iff)
  then show ?thesis by (simp add: trim_prefixes.simps [of ws s])
qed

text \<open>A string of printable ASCII without blanks is left alone by \<open>TrimSpace\<close>.\<close>

definition plain_char :: "char \<Rightarrow> bool" where
  "plain_char c \<longleftrightarrow> (32 :: nat) < of_char c \<and> of_char c < (128 :: nat)"

lemma space_strings_heads:
  "w \<in> set space_strings \<Longrightarrow> w \<noteq> [] \<and> \<not> plain_char (hd w) \<and> \<not> plain_char (last w)"
  by (auto simp: space_strings_def space_seqs_def plain_char_def)

lemma has_prefix_hd: "has_prefix s w \<Longrightarrow> w \<noteq> [] \<Longrightarrow> hd w \<in> set s"
  by (cases w; cases s) (auto simp: has_prefix_def)

lemma TrimSpace_plain:
  assumes "\<And>c. c \<in> set s \<Longrightarrow> plain_char c"
  shows "TrimSpace s = s"
proof -
  have "trim_prefixes space_strings s = s"
    using assms space_strings_heads has_prefix_hd by (intro trim_prefixes_none) blast
  moreover have "trim_prefixes (map rev space_strings) (rev s) = rev s"
  proof (rule trim_prefixes_none)
    fix w assume w: "w \<in> set (map rev space_strings)" "w \<noteq> []"
    then have "\<not> plain_char (hd w)" using space_strings_heads by (auto simp: hd_rev)
    then show "\<not> has_prefix (rev s) w" using has_prefix_hd [of "rev s" w] assms w(2) by auto
  qed
  ultimately show ?thesis by (simp add: TrimSpace_def)
qed

lemma TrimSpace_Nil [simp]: "TrimSpace [] = []"
  by (rule TrimSpace_plain) simp

end
