(* ===== verification/Awg_Identify.thy ===== *)
theory Awg_Identify
  imports Awg_Transform Go_Strings
begin

text \<open>
  Package \<open>awg\<close>, file \<open>identify.go\<close>: recovering the client's static key from a handshake
  initiation with the server's private key. HMAC is Go's \<open>crypto/hmac\<close>, written out over
  the hash parameter; curve25519 and ChaCha20-Poly1305 are parameters.
\<close>

section \<open>identify.go\<close>

definition noiseConstruction :: bytes where
  "noiseConstruction = bytes_of ''Noise_IKpsk2_25519_ChaChaPoly_BLAKE2s''"

definition wgIdentifier :: bytes where
  "wgIdentifier = bytes_of ''WireGuard v1 zx2c4 Jason@zx2c4.com''"

definition hashAll :: "xcrypto \<Rightarrow> bytes list \<Rightarrow> bytes" where
  "hashAll cr parts = blake2s_256 cr (concat parts)"

text \<open>\<open>hmac.New(newBlake2s, key)\<close>: BLAKE2s has a block of 64 bytes; a longer key is
  hashed first.\<close>

definition hmac_key :: "xcrypto \<Rightarrow> bytes \<Rightarrow> bytes" where
  "hmac_key cr key = (let k = if length key > 64 then blake2s_256 cr key else key in
     k @ replicate (64 - length k) 0)"

definition hmacBlake :: "xcrypto \<Rightarrow> bytes \<Rightarrow> bytes \<Rightarrow> bytes" where
  "hmacBlake cr key data =
     (let k = hmac_key cr key;
          inner = blake2s_256 cr (map (\<lambda>b. b XOR 0x36) k @ data)
      in blake2s_256 cr (map (\<lambda>b. b XOR 0x5c) k @ inner))"

definition kdf1 :: "xcrypto \<Rightarrow> bytes \<Rightarrow> bytes \<Rightarrow> bytes" where
  "kdf1 cr key input = (let prk = hmacBlake cr key input in hmacBlake cr prk [0x1])"

definition kdf2 :: "xcrypto \<Rightarrow> bytes \<Rightarrow> bytes \<Rightarrow> bytes \<times> bytes" where
  "kdf2 cr key input =
     (let prk = hmacBlake cr key input;
          t1 = hmacBlake cr prk [0x1];
          t2 = hmacBlake cr prk (t1 @ [0x2])
      in (t1, t2))"

text \<open>\<open>ClientPubFromInit\<close> reads \<open>init[8:40]\<close> and \<open>init[40:88]\<close> below the length it has
  checked, so it works on the contents of the slice.\<close>

definition ClientPubFromInit :: "xcrypto \<Rightarrow> bytes \<Rightarrow> bytes \<Rightarrow> bytes \<Rightarrow> bytes option" where
  "ClientPubFromInit cr init serverPriv serverPub =
     (if length init < 88 then None
      else
        let ephemeral = take 32 (drop 8 init);
            encStatic = take 48 (drop 40 init);
            chainKey = blake2s_256 cr noiseConstruction;
            h = hashAll cr [chainKey, wgIdentifier];
            h = hashAll cr [h, serverPub];
            h = hashAll cr [h, ephemeral];
            chainKey = kdf1 cr chainKey ephemeral
        in case x25519 cr serverPriv ephemeral of
             None \<Rightarrow> None
           | Some ss \<Rightarrow>
               (let key = snd (kdf2 cr chainKey ss) in
                case aead_open cr key (replicate 12 0) encStatic h of
                  None \<Rightarrow> None
                | Some out \<Rightarrow> if length out \<noteq> 32 then None else Some out))"

section \<open>The initiator's side, from the WireGuard protocol\<close>

text \<open>
  What an initiator with ephemeral key pair \<open>(eph, ephPub)\<close> and static public key
  \<open>clientPub\<close> puts into bytes 0 to 88 of its initiation to the server \<open>serverPub\<close>: the
  specification \<open>ClientPubFromInit\<close> inverts. \<open>seal\<close> is the encryption that
  \<open>aead_open\<close> inverts.
\<close>

definition init_hash :: "xcrypto \<Rightarrow> bytes \<Rightarrow> bytes \<Rightarrow> bytes" where
  "init_hash cr serverPub ephPub =
     hashAll cr [hashAll cr [hashAll cr [blake2s_256 cr noiseConstruction, wgIdentifier],
       serverPub], ephPub]"

definition init_key :: "xcrypto \<Rightarrow> bytes \<Rightarrow> bytes \<Rightarrow> bytes" where
  "init_key cr ephPub shared =
     snd (kdf2 cr (kdf1 cr (blake2s_256 cr noiseConstruction) ephPub) shared)"

definition honest_init ::
  "xcrypto \<Rightarrow> (bytes \<Rightarrow> bytes \<Rightarrow> bytes \<Rightarrow> bytes \<Rightarrow> bytes) \<Rightarrow>
   bytes \<Rightarrow> bytes \<Rightarrow> bytes \<Rightarrow> bytes \<Rightarrow> bytes \<Rightarrow> bytes \<Rightarrow> bytes" where
  "honest_init cr seal hdr ephPub shared serverPub clientPub tail =
     hdr @ ephPub @
     seal (init_key cr ephPub shared) (replicate 12 0) clientPub (init_hash cr serverPub ephPub) @
     tail"

text \<open>Documented behaviour of the AEAD: opening what was sealed under the same key, nonce
  and additional data gives the plaintext, and sealing adds a 16-byte tag.\<close>

definition aead_inverse :: "xcrypto \<Rightarrow> (bytes \<Rightarrow> bytes \<Rightarrow> bytes \<Rightarrow> bytes \<Rightarrow> bytes) \<Rightarrow> bool" where
  "aead_inverse cr seal \<longleftrightarrow>
     (\<forall>k n p a. aead_open cr k n (seal k n p a) a = Some p \<and> length (seal k n p a) = length p + 16)"

lemma ClientPubFromInit_length:
  "ClientPubFromInit cr init priv pub = Some k \<Longrightarrow> length k = 32"
  by (auto simp: ClientPubFromInit_def Let_def split: if_splits option.splits)

lemma ClientPubFromInit_short: "length init < 88 \<Longrightarrow> ClientPubFromInit cr init priv pub = None"
  by (simp add: ClientPubFromInit_def)

text \<open>The code on a message cut at the offsets it uses: only the ephemeral key and the
  encrypted static key matter.\<close>

lemma ClientPubFromInit_parts:
  assumes "length hdr = 8" "length eph = 32" "length enc = 48"
  shows "ClientPubFromInit cr (hdr @ eph @ enc @ tail) priv pub =
    (case x25519 cr priv eph of None \<Rightarrow> None
     | Some ss \<Rightarrow>
        (case aead_open cr (init_key cr eph ss) (replicate 12 0) enc (init_hash cr pub eph) of
           None \<Rightarrow> None
         | Some out \<Rightarrow> if length out \<noteq> 32 then None else Some out))"
  using assms by (auto simp: ClientPubFromInit_def Let_def init_key_def init_hash_def
      split: option.splits)


definition demo_seal :: "bytes \<Rightarrow> bytes \<Rightarrow> bytes \<Rightarrow> bytes \<Rightarrow> bytes" where
  "demo_seal k n p a = p @ take 16 (k @ replicate 16 0)"

definition demo_aead :: xcrypto where
  "demo_aead = demo_crypto\<lparr>aead_open :=
     \<lambda>k n c a. (let m = length c - 16 in
       if drop m c = take 16 (k @ replicate 16 0) then Some (take m c) else None)\<rparr>"

lemma demo_aead_inverse: "aead_inverse demo_aead demo_seal"
  by (simp add: aead_inverse_def demo_aead_def demo_seal_def Let_def min_def)


end
