(* ===== verification/Binapi_Codec.thy ===== *)
theory Binapi_Codec
  imports Go_Strings "HOL-Library.AList"
begin

text \<open>
  Package \<open>binapi\<close>, file \<open>codec.go\<close> and the sentences of \<open>conn.go\<close>: the length-prefixed
  words of the RouterOS API. A reader is the list of bytes that still arrive before the
  connection ends or its deadline passes; running out of them is the read error. \<open>int\<close> is
  64 bits wide.
\<close>

section \<open>codec.go\<close>

datatype read_error = ReadFailed | BadLengthByte byte

definition writeLength :: "int \<Rightarrow> bytes" where
  "writeLength n =
     (if n < 0x80 then [word_of_int n]
      else if n < 0x4000 then
        (let n = n OR 0x8000 in [word_of_int (drop_bit 8 n), word_of_int n])
      else if n < 0x200000 then
        (let n = n OR 0xC00000 in
         [word_of_int (drop_bit 16 n), word_of_int (drop_bit 8 n), word_of_int n])
      else if n < 0x10000000 then
        [word_of_int (drop_bit 24 n) OR 0xE0, word_of_int (drop_bit 16 n),
         word_of_int (drop_bit 8 n), word_of_int n]
      else
        [0xF0, word_of_int (drop_bit 24 n), word_of_int (drop_bit 16 n),
         word_of_int (drop_bit 8 n), word_of_int n])"

definition readLength :: "bytes \<Rightarrow> read_error + int \<times> bytes" where
  "readLength r =
     (case r of
        [] \<Rightarrow> Inl ReadFailed
      | b # r \<Rightarrow>
          if b AND 0x80 = 0 then Inr (uint b, r)
          else if b AND 0xC0 = 0x80 then
            (case r of
               b2 # r \<Rightarrow> Inr (push_bit 8 (uint (b AND 0x3F)) OR uint b2, r)
             | _ \<Rightarrow> Inl ReadFailed)
          else if b AND 0xE0 = 0xC0 then
            (case r of
               c0 # c1 # r \<Rightarrow>
                 Inr (push_bit 16 (uint (b AND 0x1F)) OR push_bit 8 (uint c0) OR uint c1, r)
             | _ \<Rightarrow> Inl ReadFailed)
          else if b AND 0xF0 = 0xE0 then
            (case r of
               c0 # c1 # c2 # r \<Rightarrow>
                 Inr (push_bit 24 (uint (b AND 0x0F)) OR push_bit 16 (uint c0)
                   OR push_bit 8 (uint c1) OR uint c2, r)
             | _ \<Rightarrow> Inl ReadFailed)
          else if b = 0xF0 then
            (case r of
               c0 # c1 # c2 # c3 # r \<Rightarrow>
                 Inr (push_bit 24 (uint c0) OR push_bit 16 (uint c1)
                   OR push_bit 8 (uint c2) OR uint c3, r)
             | _ \<Rightarrow> Inl ReadFailed)
          else Inl (BadLengthByte b))"

definition writeWord :: "string \<Rightarrow> bytes" where
  "writeWord s = writeLength (int (length s)) @ bytes_of s"

definition readWord :: "bytes \<Rightarrow> read_error + string \<times> bytes" where
  "readWord r =
     (case readLength r of
        Inl e \<Rightarrow> Inl e
      | Inr (n, r) \<Rightarrow>
          if n = 0 then Inr ([], r)
          else if int (length r) < n then Inl ReadFailed
          else Inr (string_of (take (nat n) r), drop (nat n) r))"

section \<open>Sentences\<close>

text \<open>The attributes of a reply or a record of the router: a string map.\<close>

type_synonym row = "(string \<times> string) list"

text \<open>\<open>m[k]\<close> of a Go map: the empty string when the key is absent.\<close>

definition fld :: "row \<Rightarrow> string \<Rightarrow> string" where
  "fld m k = (case map_of m k of None \<Rightarrow> [] | Some v \<Rightarrow> v)"

record sentence =
  reply :: string
  words :: row

definition Send :: "string list \<Rightarrow> bytes" where
  "Send ws = concat (map writeWord ws) @ writeLength 0"

text \<open>A word \<open>=key=value\<close>; anything else is skipped.\<close>

definition parse_attr :: "string \<Rightarrow> row \<Rightarrow> row" where
  "parse_attr w m =
     (if length w > 1 \<and> hd w = CHR ''='' then
        (let rest = List.tl w in
         case index_byte rest CHR ''='' of
           None \<Rightarrow> AList.update rest [] m
         | Some e \<Rightarrow> AList.update (take e rest) (drop (e + 1) rest) m)
      else m)"

lemma readLength_shorter: "readLength r = Inr (n, r') \<Longrightarrow> length r' < length r"
  by (auto simp: readLength_def split: list.splits if_splits)

lemma readWord_shorter: "readWord r = Inr (w, r') \<Longrightarrow> length r' < length r"
  by (auto simp: readWord_def split: sum.splits prod.splits if_splits dest!: readLength_shorter)

text \<open>Every word takes at least its length byte off the reader, so the loop ends.\<close>

function recv_attrs :: "bytes \<Rightarrow> row \<Rightarrow> read_error + row \<times> bytes" where
  "recv_attrs r m =
     (case readWord r of
        Inl e \<Rightarrow> Inl e
      | Inr (w, r') \<Rightarrow> if w = [] then Inr (m, r') else recv_attrs r' (parse_attr w m))"
  by pat_completeness auto
termination
  by (relation "measure (\<lambda>(r, m). length r)") (auto dest: readWord_shorter)

declare recv_attrs.simps [simp del]

definition Recv :: "bytes \<Rightarrow> read_error + sentence \<times> bytes" where
  "Recv r =
     (case readWord r of
        Inl e \<Rightarrow> Inl e
      | Inr (first, r1) \<Rightarrow>
          if first = [] then Inr (\<lparr>reply = [], words = []\<rparr>, r1)
          else (case recv_attrs r1 [] of
              Inl e \<Rightarrow> Inl e
            | Inr (m, r2) \<Rightarrow> Inr (\<lparr>reply = first, words = m\<rparr>, r2)))"

section \<open>The length prefix, bit by bit\<close>

lemma bit_bound: "bit n k \<Longrightarrow> 0 \<le> n \<Longrightarrow> n < 2 ^ m \<Longrightarrow> k < m" for n :: int
  by (metis bit_take_bit_iff take_bit_int_eq_self)

lemma all8: "(\<forall>k < 8. P k) \<longleftrightarrow> P 0 \<and> P 1 \<and> P 2 \<and> P 3 \<and> P 4 \<and> P 5 \<and> P 6 \<and> P (7::nat)"
proof (intro iffI allI impI)
  fix k assume P: "P 0 \<and> P 1 \<and> P 2 \<and> P 3 \<and> P 4 \<and> P 5 \<and> P 6 \<and> P 7" and "k < (8 :: nat)"
  then have "k = 0 \<or> k = 1 \<or> k = 2 \<or> k = 3 \<or> k = 4 \<or> k = 5 \<or> k = 6 \<or> k = 7" by presburger
  with P show "P k" by (elim disjE) simp_all
qed simp

lemma byte_eq_iff: "(a::byte) = b \<longleftrightarrow> (\<forall>n<8. bit a n = bit b n)"
  by (auto intro: bit_word_eqI)

lemma byte_tests:
  fixes b :: byte
  shows "b AND 0x80 = 0 \<longleftrightarrow> \<not> bit b 7"
   "b AND 0xC0 = 0x80 \<longleftrightarrow> bit b 7 \<and> \<not> bit b 6"
   "b AND 0xE0 = 0xC0 \<longleftrightarrow> bit b 7 \<and> bit b 6 \<and> \<not> bit b 5"
   "b AND 0xF0 = 0xE0 \<longleftrightarrow> bit b 7 \<and> bit b 6 \<and> bit b 5 \<and> \<not> bit b 4"
  unfolding byte_eq_iff all8 by (auto simp add: bit_and_iff) 

lemma byte_masks:
  fixes b :: byte
  shows "b AND 0x3F = take_bit 6 b" "b AND 0x1F = take_bit 5 b" "b AND 0x0F = take_bit 4 b"
  by (simp_all add: take_bit_eq_mask mask_eq_exp_minus_1)

lemma len_sets:
  fixes n :: int
  shows "n OR 0x8000 = set_bit 15 n" "n OR 0xC00000 = set_bit 23 (set_bit 22 n)"
  by (simp_all add: set_bit_eq_or or.assoc)

lemma byte_sets: "b OR 0xE0 = set_bit 7 (set_bit 6 (set_bit 5 (b::byte)))"
  by (simp_all add: set_bit_eq_or or.assoc)

lemma join2:
  fixes n :: int
  assumes "0 \<le> n" "n < 2 ^ 14"
  shows "push_bit 8 (uint (take_bit 6 (word_of_int (drop_bit 8 (set_bit 15 n)) :: byte)))
    OR uint (word_of_int (set_bit 15 n) :: byte) = n"
  using assms by (intro bit_eqI) (auto simp: bit_simps dest: bit_bound [where m = 14])

lemma join3:
  fixes n :: int
  assumes "0 \<le> n" "n < 2 ^ 21"
  shows "push_bit 16 (uint (take_bit 5 (word_of_int (drop_bit 16 (set_bit 23 (set_bit 22 n))) :: byte)))
    OR push_bit 8 (uint (word_of_int (drop_bit 8 (set_bit 23 (set_bit 22 n))) :: byte))
    OR uint (word_of_int (set_bit 23 (set_bit 22 n)) :: byte) = n"
  using assms by (intro bit_eqI) (auto simp: bit_simps dest: bit_bound [where m = 21])

lemma join4:
  fixes n :: int
  assumes "0 \<le> n" "n < 2 ^ 28"
  shows "push_bit 24 (uint (take_bit 4 (set_bit 7 (set_bit 6 (set_bit 5
        (word_of_int (drop_bit 24 n) :: byte))))))
    OR push_bit 16 (uint (word_of_int (drop_bit 16 n) :: byte))
    OR push_bit 8 (uint (word_of_int (drop_bit 8 n) :: byte))
    OR uint (word_of_int n :: byte) = n"
proof (rule bit_eqI, goal_cases)
  case (1 k)
  then show ?case
    using assms
    by (cases "8 \<le> k"; cases "16 \<le> k"; cases "24 \<le> k")
       (auto simp: bit_simps dest: bit_bound [where m = 28])
qed

lemma join5:
  fixes n :: int
  assumes "0 \<le> n" "n < 2 ^ 32"
  shows "push_bit 24 (uint (word_of_int (drop_bit 24 n) :: byte))
    OR push_bit 16 (uint (word_of_int (drop_bit 16 n) :: byte))
    OR push_bit 8 (uint (word_of_int (drop_bit 8 n) :: byte))
    OR uint (word_of_int n :: byte) = n"
proof (rule bit_eqI, goal_cases)
  case (1 k)
  then show ?case
    using assms
    by (cases "8 \<le> k"; cases "16 \<le> k"; cases "24 \<le> k")
       (auto simp: bit_simps dest: bit_bound [where m = 32])
qed

lemma high_bits:
  fixes n :: int
  shows "0 \<le> n \<Longrightarrow> n < 2 ^ 7 \<Longrightarrow> \<not> bit (word_of_int n :: byte) 7"
    "0 \<le> n \<Longrightarrow> n < 2 ^ 14 \<Longrightarrow> bit (word_of_int (drop_bit 8 (set_bit 15 n)) :: byte) 7 \<and>
      \<not> bit (word_of_int (drop_bit 8 (set_bit 15 n)) :: byte) 6"
    "0 \<le> n \<Longrightarrow> n < 2 ^ 21 \<Longrightarrow> bit (word_of_int (drop_bit 16 (set_bit 23 (set_bit 22 n))) :: byte) 7 \<and>
      bit (word_of_int (drop_bit 16 (set_bit 23 (set_bit 22 n))) :: byte) 6 \<and>
      \<not> bit (word_of_int (drop_bit 16 (set_bit 23 (set_bit 22 n))) :: byte) 5"
    "0 \<le> n \<Longrightarrow> n < 2 ^ 28 \<Longrightarrow>
      \<not> bit (set_bit 7 (set_bit 6 (set_bit 5 (word_of_int (drop_bit 24 n) :: byte)))) 4"
  by (auto simp: bit_simps dest: bit_bound [where m = 7] bit_bound [where m = 14]
      bit_bound [where m = 21] bit_bound [where m = 28])

lemma readLength_writeLength:
  assumes "0 \<le> n" "n < 2 ^ 32"
  shows "readLength (writeLength n @ r) = Inr (n, r)"
proof -
  consider "n < 2 ^ 7" | "\<not> n < 2 ^ 7" "n < 2 ^ 14" | "\<not> n < 2 ^ 14" "n < 2 ^ 21" 
    | "\<not> n < 2 ^ 21" "n < 2 ^ 28" | "\<not> n < 2 ^ 28" by linarith
  then show ?thesis
  proof cases
    case 1
    then show ?thesis using assms high_bits(1) [of n]
      by (simp add: writeLength_def readLength_def byte_tests uint_word_of_int_eq take_bit_int_eq_self)
  next
    case 2
    then show ?thesis using assms join2 [of n] high_bits(2) [of n]
      by (simp add: writeLength_def readLength_def byte_tests byte_masks len_sets Let_def)
  next
    case 3
    then show ?thesis using assms join3 [of n] high_bits(3) [of n]
      by (simp add: writeLength_def readLength_def byte_tests byte_masks len_sets Let_def)
  next
    case 4
    then show ?thesis using assms join4 [of n] high_bits(4) [of n]
      by (simp add: writeLength_def readLength_def byte_tests byte_masks byte_sets Let_def bit_simps)
  next
    case 5
    then show ?thesis using assms join5 [of n] 
      by (simp add: writeLength_def readLength_def Let_def)
  qed
qed

section \<open>The interface: prefix codes\<close>

text \<open>What the words and sentences rely on: a reader that undoes the writer whatever
  follows.\<close>

locale prefix_code =
  fixes put :: "'a \<Rightarrow> bytes"
    and get :: "bytes \<Rightarrow> read_error + 'a \<times> bytes"
    and ok :: "'a \<Rightarrow> bool"
  assumes get_put: "ok x \<Longrightarrow> get (put x @ r) = Inr (x, r)"
begin

lemma put_prefix_free:
  assumes "ok x" "ok y" "put x @ r = put y @ r'"
  shows "x = y \<and> r = r'"
proof -
  have "get (put y @ r') = Inr (x, r)"
    using get_put [OF assms(1), of r] by (simp only: assms(3))
  with get_put [OF assms(2), of r'] show ?thesis by simp
qed

lemma put_list_prefix_free:
  assumes "\<forall>x \<in> set xs. ok x" "\<forall>y \<in> set ys. ok y" "length xs = length ys"
    and "concat (map put xs) @ r = concat (map put ys) @ r'"
  shows "xs = ys \<and> r = r'"
  using assms(3,1,2,4)
proof (induction xs ys rule: list_induct2)
  case (Cons x xs y ys)
  have "x = y \<and> concat (map put xs) @ r = concat (map put ys) @ r'"
    using Cons.prems by (intro put_prefix_free) simp_all
  with Cons show ?case by simp
qed simp

end

definition word_ok :: "string \<Rightarrow> bool" where
  "word_ok w \<longleftrightarrow> int (length w) < 2 ^ 32"

interpretation len: prefix_code writeLength readLength "\<lambda>n. 0 \<le> n \<and> n < 2 ^ 32"
  by unfold_locales (simp add: readLength_writeLength)

lemma readWord_writeWord: "word_ok w \<Longrightarrow> readWord (writeWord w @ r) = Inr (w, r)"
  using len.get_put [of "int (length w)" "bytes_of w @ r"]
  by (auto simp: readWord_def writeWord_def word_ok_def)

interpretation wrd: prefix_code writeWord readWord word_ok
  by unfold_locales (rule readWord_writeWord)

section \<open>Properties\<close>

text \<open>
  Length prefixes round-trip: every length below \<open>2^32\<close> is read back from what
  \<open>writeLength\<close> wrote, and the reader stops exactly behind it (\<open>TestLengthRoundtrip\<close>).
\<close>

lemma length_roundtrip:
  assumes "0 \<le> n" "n < 2 ^ 32"
  shows "readLength (writeLength n @ r) = Inr (n, r)"
  using assms by (intro len.get_put) simp

lemma Send_eq: "Send ws = concat (map writeWord (ws @ [[]]))"
  by (simp add: Send_def writeWord_def bytes_of_def)

lemma Send_first:
  assumes "word_ok w" "word_ok v" "concat (map writeWord (w # ws)) @ r = concat (map writeWord (v # vs)) @ r'"
  shows "w = v \<and> concat (map writeWord ws) @ r = concat (map writeWord vs) @ r'"
  using assms by (intro wrd.put_prefix_free) simp_all

lemma Send_cancel:
  assumes "\<forall>w \<in> set ws. word_ok w \<and> w \<noteq> []" "\<forall>w \<in> set vs. word_ok w \<and> w \<noteq> []"
    and "concat (map writeWord (ws @ [[]])) @ r = concat (map writeWord (vs @ [[]])) @ r'"
  shows "ws = vs \<and> r = r'"
  using assms
proof (induction ws arbitrary: vs)
  case Nil
  have e: "word_ok []" by (simp add: word_ok_def)
  show ?case
  proof (cases vs)
    case Nil
    with Nil.prems show ?thesis by simp
  next
    case (Cons v vs')
    with Nil.prems e Send_first [of "[]" v "[]" r "vs' @ [[]]" r'] show ?thesis by auto
  qed
next
  case (Cons w ws)
  have e: "word_ok []" by (simp add: word_ok_def)
  show ?case
  proof (cases vs)
    case Nil
    with Cons.prems e Send_first [of w "[]" "ws @ [[]]" r "[]" r'] show ?thesis by auto
  next
    case (Cons v vs')
    with Cons.prems have "w = v \<and> concat (map writeWord (ws @ [[]])) @ r =
        concat (map writeWord (vs' @ [[]])) @ r'"
      by (intro Send_first) auto
    with Cons.IH [of vs'] Cons.prems Cons show ?thesis by auto
  qed
qed

text \<open>
  A request is framed unambiguously: if two requests of non-empty words produce the same
  bytes, they are the same list of words. No content of a word (quotes, newlines, further
  \<open>=\<close> signs) can shift the frame or end the sentence early.
\<close>

lemma Send_injective:
  assumes "\<forall>w \<in> set ws. word_ok w \<and> w \<noteq> []" "\<forall>w \<in> set vs. word_ok w \<and> w \<noteq> []"
    and "Send ws @ r = Send vs @ r'"
  shows "ws = vs \<and> r = r'"
  using assms by (intro Send_cancel) (simp_all add: Send_eq)

text \<open>An attribute as \<open>kvWords\<close> writes it.\<close>

definition attr_word :: "string \<times> string \<Rightarrow> string" where
  "attr_word kv = CHR ''='' # fst kv @ CHR ''='' # snd kv"

lemma parse_attr_word:
  "CHR ''='' \<notin> set k \<Longrightarrow> parse_attr (attr_word (k, v)) m = AList.update k v m"
  by (simp add: parse_attr_def attr_word_def index_byte_append Let_def)

lemma recv_attrs_end: "recv_attrs (writeLength 0 @ r) m = Inr (m, r)"
  using readWord_writeWord [of "[]" r]
  by (simp add: recv_attrs.simps writeWord_def word_ok_def)

lemma recv_attrs_words:
  assumes "\<forall>kv \<in> set kvs. CHR ''='' \<notin> set (fst kv) \<and> word_ok (attr_word kv)"
  shows "recv_attrs (concat (map writeWord (map attr_word kvs)) @ writeLength 0 @ r) m =
    Inr (foldl (\<lambda>m kv. AList.update (fst kv) (snd kv) m) m kvs, r)"
  using assms
proof (induction kvs arbitrary: m)
  case (Cons kv kvs)
  let ?rest = "concat (map writeWord (map attr_word kvs)) @ writeLength 0 @ r"
  have "readWord (writeWord (attr_word kv) @ ?rest) = Inr (attr_word kv, ?rest)"
    using Cons.prems by (intro readWord_writeWord) simp
  moreover have "attr_word kv \<noteq> []" by (simp add: attr_word_def)
  moreover have "parse_attr (attr_word kv) m = AList.update (fst kv) (snd kv) m"
    using Cons.prems parse_attr_word [of "fst kv" "snd kv"] by simp
  ultimately have "recv_attrs (writeWord (attr_word kv) @ ?rest) m =
      recv_attrs ?rest (AList.update (fst kv) (snd kv) m)"
    by (subst recv_attrs.simps) simp
  with Cons show ?case by simp
qed (simp add: recv_attrs_end)

lemma map_of_updates:
  "map_of (foldl (\<lambda>m kv. AList.update (fst kv) (snd kv) m) m kvs) = map_of m ++ map_of (rev kvs)"
proof (induction kvs arbitrary: m)
  case (Cons kv kvs)
  show ?case unfolding foldl_Cons Cons.IH by (cases kv) (simp add: update_conv' map_add_upd_left)
qed simp

text \<open>
  C18. Sentences round-trip: \<open>Recv\<close> on what \<open>Send\<close> wrote for a command and its attributes
  returns the command and a map with exactly these attributes (the last one of a key wins),
  for any keys without an equals sign and any values, and leaves what follows unread
  (\<open>TestWordRoundtrip\<close>).
\<close>

theorem sentence_roundtrip:
  assumes "cmd \<noteq> []" "word_ok cmd"
    and "\<forall>kv \<in> set kvs. CHR ''='' \<notin> set (fst kv) \<and> word_ok (attr_word kv)"
  shows "\<exists>m. Recv (Send (cmd # map attr_word kvs) @ r) = Inr (\<lparr>reply = cmd, words = m\<rparr>, r) \<and>
    map_of m = map_of (rev kvs)"
proof -
  have "Recv (Send (cmd # map attr_word kvs) @ r) =
      Inr (\<lparr>reply = cmd, words = foldl (\<lambda>m kv. AList.update (fst kv) (snd kv) m) [] kvs\<rparr>, r)"
    using assms(1,2) recv_attrs_words [OF assms(3), of r "[]"]
    by (simp add: Recv_def Send_def readWord_writeWord)
  then show ?thesis by (simp add: map_of_updates)
qed

theorem sentence_roundtrip_witness:
  "\<exists>m. Recv (Send (''!re'' # map attr_word [(''name'', ''a=b''), (''.id'', ''*1'')]) @ [9]) =
     Inr (\<lparr>reply = ''!re'', words = m\<rparr>, [9]) \<and>
     map_of m = map_of (rev [(''name'', ''a=b''), (''.id'', ''*1'')])"
  by (rule sentence_roundtrip) (simp_all add: word_ok_def attr_word_def)

end
