(* ===== verification/Binapi_Client.thy ===== *)
theory Binapi_Client
  imports Binapi_Codec
begin

text \<open>
  Package \<open>binapi\<close>, the rest of \<open>conn.go\<close> and \<open>client.go\<close>: login, the request/reply
  exchange and the dialer with its one reconnection. The network and the router are the
  parameter \<open>transport\<close> over a world \<open>'w\<close>; a connection is the list of bytes that have
  arrived on it and were not read yet.
\<close>

section \<open>Parameters and errors\<close>

record 'w transport =
  tr_dial :: "string \<Rightarrow> bool \<Rightarrow> 'w \<Rightarrow> bool \<times> 'w"
    \<comment> \<open>connect to an address, with or without TLS: whether it succeeded\<close>
  tr_send :: "bytes \<Rightarrow> 'w \<Rightarrow> bytes option \<times> 'w"
    \<comment> \<open>write a sentence: \<open>None\<close> on an I/O error, else what arrives before the deadline\<close>

datatype gerror =
    Trap string string          \<comment> \<open>category and message of a \<open>!trap\<close>\<close>
  | Fatal string
  | RecvError read_error
  | SendError
  | DialError
  | Msg string
  | Wrap string gerror          \<comment> \<open>\<open>fmt.Errorf("...: %w", err)\<close>\<close>

section \<open>conn.go: login\<close>

lemma Recv_shorter: "Recv r = Inr (s, r') \<Longrightarrow> length r' < length r"
proof -
  have recv_attrs: "recv_attrs r m = Inr (m', r') \<Longrightarrow> length r' < length r" for r m m' r'
  proof (induction r m rule: recv_attrs.induct)
    case (1 r m)
    obtain w r1 where w: "readWord r = Inr (w, r1)"
      using "1.prems" by (cases "readWord r") (force simp: recv_attrs.simps [of r m])+
    have "length r' \<le> length r1"
    proof (cases "w = []")
      case True
      with "1.prems" w show ?thesis by (simp add: recv_attrs.simps [of r m])
    next
      case False
      with "1.prems" w have "recv_attrs r1 (parse_attr w m) = Inr (m', r')"
        by (simp add: recv_attrs.simps [of r m])
      from "1.IH" [OF w refl False this] show ?thesis by simp
    qed
    with readWord_shorter [OF w] show ?case by simp
  qed
  assume "Recv r = Inr (s, r')"
  then show ?thesis
    by (auto simp: Recv_def split: sum.splits prod.splits if_splits
        dest!: recv_attrs readWord_shorter)
qed

function login_loop :: "bytes \<Rightarrow> gerror + bytes" where
  "login_loop r =
     (case Recv r of
        Inl e \<Rightarrow> Inl (Wrap ''login recv'' (RecvError e))
      | Inr (s, r') \<Rightarrow>
          if reply s = ''!done'' then Inr r'
          else if reply s = ''!trap''
          then Inl (Trap (fld (words s) ''category'') (fld (words s) ''message''))
          else if reply s = ''!fatal'' then Inl (Fatal (fld (words s) ''message''))
          else login_loop r')"
  by pat_completeness auto
termination
  by (relation "measure length") (auto dest: Recv_shorter)

declare login_loop.simps [simp del]

definition login_words :: "string \<Rightarrow> string \<Rightarrow> string list" where
  "login_words user password = [''/login'', ''=name='' @ user, ''=password='' @ password]"

definition login :: "'w transport \<Rightarrow> string \<Rightarrow> string \<Rightarrow> 'w \<Rightarrow> (gerror + bytes) \<times> 'w" where
  "login tr user password w =
     (case tr_send tr (Send (login_words user password)) w of
        (None, w) \<Rightarrow> (Inl (Wrap ''login send'' SendError), w)
      | (Some inp, w) \<Rightarrow> (login_loop inp, w))"

definition Dial ::
  "'w transport \<Rightarrow> string \<Rightarrow> bool \<Rightarrow> string \<Rightarrow> string \<Rightarrow> 'w \<Rightarrow> (gerror + bytes) \<times> 'w" where
  "Dial tr addr useTLS user password w =
     (case tr_dial tr addr useTLS w of
        (False, w) \<Rightarrow> (Inl (Wrap ''dial'' DialError), w)
      | (True, w) \<Rightarrow> login tr user password w)"

section \<open>client.go: the dialer\<close>

record dialer =
  d_Address :: string
  d_Port :: int
  d_UseTLS :: bool
  d_User :: string
  d_Password :: string
  d_conn :: "bytes option"

definition d_addr :: "dialer \<Rightarrow> string" where
  "d_addr d = d_Address d @ '':'' @ Itoa (d_Port d)"

definition ensure :: "'w transport \<Rightarrow> dialer \<Rightarrow> 'w \<Rightarrow> (gerror + bytes) \<times> dialer \<times> 'w" where
  "ensure tr d w =
     (case d_conn d of
        Some c \<Rightarrow> (Inr c, d, w)
      | None \<Rightarrow>
          (case Dial tr (d_addr d) (d_UseTLS d) (d_User d) (d_Password d) w of
             (Inl e, w) \<Rightarrow> (Inl e, d, w)
           | (Inr c, w) \<Rightarrow> (Inr c, d\<lparr>d_conn := Some c\<rparr>, w)))"

definition drop_conn :: "dialer \<Rightarrow> dialer" where
  "drop_conn d = d\<lparr>d_conn := None\<rparr>"

definition Close :: "dialer \<Rightarrow> dialer" where
  "Close d = drop_conn d"

text \<open>The receive loop of \<open>call\<close>: the result and what is left unread.\<close>

function call_loop :: "bytes \<Rightarrow> row list \<Rightarrow> (gerror + row list) \<times> bytes" where
  "call_loop r rows =
     (case Recv r of
        Inl e \<Rightarrow> (Inl (Wrap ''recv'' (RecvError e)), r)
      | Inr (s, r') \<Rightarrow>
          if reply s = ''!re'' then call_loop r' (rows @ [words s])
          else if reply s = ''!done''
          then (Inr (if words s \<noteq> [] then rows @ [words s] else rows), r')
          else if reply s = ''!trap''
          then (Inl (Trap (fld (words s) ''category'') (fld (words s) ''message'')), r')
          else if reply s = ''!fatal'' then (Inl (Fatal (fld (words s) ''message'')), r')
          else call_loop r' rows)"
  by pat_completeness auto
termination
  by (relation "measure (\<lambda>(r, rows). length r)") (auto dest: Recv_shorter)

declare call_loop.simps [simp del]

definition call ::
  "'w transport \<Rightarrow> dialer \<Rightarrow> string \<Rightarrow> string list \<Rightarrow> 'w \<Rightarrow> (gerror + row list) \<times> dialer \<times> 'w" where
  "call tr d cmd args w =
     (case ensure tr d w of
        (Inl e, d, w) \<Rightarrow> (Inl e, d, w)
      | (Inr c, d, w) \<Rightarrow>
          (case tr_send tr (Send (cmd # args)) w of
             (None, w) \<Rightarrow> (Inl (Wrap ''send'' SendError), d, w)
           | (Some inp, w) \<Rightarrow>
               (let (res, c) = call_loop (c @ inp) [] in (res, d\<lparr>d_conn := Some c\<rparr>, w))))"

text \<open>\<open>Call\<close>: any error drops the connection and repeats the request once.\<close>

definition Call ::
  "'w transport \<Rightarrow> dialer \<Rightarrow> string \<Rightarrow> string list \<Rightarrow> 'w \<Rightarrow> (gerror + row list) \<times> dialer \<times> 'w" where
  "Call tr d cmd args w =
     (case call tr d cmd args w of
        (Inr rows, d, w) \<Rightarrow> (Inr rows, d, w)
      | (Inl _, d, w) \<Rightarrow>
          (case call tr (drop_conn d) cmd args w of
             (Inr rows, d, w) \<Rightarrow> (Inr rows, d, w)
           | (Inl e, d, w) \<Rightarrow> (Inl e, drop_conn d, w)))"

text \<open>\<open>kvWords\<close> in the map's iteration order, which is that of the list.\<close>

definition kvWords :: "row \<Rightarrow> string list" where
  "kvWords kv = map attr_word kv"

definition dial_Print ::
  "'w transport \<Rightarrow> dialer \<Rightarrow> string \<Rightarrow> string list \<Rightarrow> 'w \<Rightarrow> (gerror + row list) \<times> dialer \<times> 'w" where
  "dial_Print tr d path args w = Call tr d (path @ ''/print'') args w"

definition dial_Add ::
  "'w transport \<Rightarrow> dialer \<Rightarrow> string \<Rightarrow> row \<Rightarrow> 'w \<Rightarrow> (gerror + string) \<times> dialer \<times> 'w" where
  "dial_Add tr d path kv w =
     (case Call tr d (path @ ''/add'') (kvWords kv) w of
        (Inl e, s) \<Rightarrow> (Inl e, s)
      | (Inr [], s) \<Rightarrow> (Inl (Msg ''no reply''), s)
      | (Inr (row # _), s) \<Rightarrow> (Inr (fld row ''ret''), s))"

definition ok_result :: "(gerror + 'a) \<times> 's \<Rightarrow> (gerror + unit) \<times> 's" where
  "ok_result r = (case r of (Inl e, s) \<Rightarrow> (Inl e, s) | (Inr _, s) \<Rightarrow> (Inr (), s))"

definition dial_Set ::
  "'w transport \<Rightarrow> dialer \<Rightarrow> string \<Rightarrow> string \<Rightarrow> row \<Rightarrow> 'w \<Rightarrow> (gerror + unit) \<times> dialer \<times> 'w" where
  "dial_Set tr d path rid kv w =
     ok_result (Call tr d (path @ ''/set'') ((''=.id='' @ rid) # kvWords kv) w)"

definition dial_Remove ::
  "'w transport \<Rightarrow> dialer \<Rightarrow> string \<Rightarrow> string \<Rightarrow> 'w \<Rightarrow> (gerror + unit) \<times> dialer \<times> 'w" where
  "dial_Remove tr d path rid w = ok_result (Call tr d (path @ ''/remove'') [''=.id='' @ rid] w)"

definition Verify ::
  "'w transport \<Rightarrow> string \<Rightarrow> bool \<Rightarrow> string \<Rightarrow> string \<Rightarrow> 'w \<Rightarrow> (gerror + unit) \<times> 'w" where
  "Verify tr addr useTLS user password w = ok_result (Dial tr addr useTLS user password w)"

section \<open>Lemmas\<close>

text \<open>A router's answer: record sentences, then the final one.\<close>

definition re_sentence :: "row \<Rightarrow> bytes" where
  "re_sentence m = Send (''!re'' # map attr_word m)"

definition answer :: "row list \<Rightarrow> bytes" where
  "answer ms = concat (map re_sentence ms) @ Send [''!done'']"

definition trap_answer :: "string \<Rightarrow> bytes" where
  "trap_answer msg = Send [''!trap'', attr_word (''message'', msg)] @ Send [''!done'']"

definition row_ok :: "row \<Rightarrow> bool" where
  "row_ok m \<longleftrightarrow> (\<forall>kv \<in> set m. CHR ''='' \<notin> set (fst kv) \<and> word_ok (attr_word kv)) \<and>
     distinct (map fst m)"

lemma Recv_sentence:
  assumes "cmd \<noteq> []" "word_ok cmd" "\<forall>kv \<in> set kvs. CHR ''='' \<notin> set (fst kv) \<and> word_ok (attr_word kv)"
  shows "Recv (Send (cmd # map attr_word kvs) @ r) =
    Inr (\<lparr>reply = cmd, words = foldl (\<lambda>m kv. AList.update (fst kv) (snd kv) m) [] kvs\<rparr>, r)"
  using assms(1,2) recv_attrs_words [OF assms(3), of r "[]"]
  by (simp add: Recv_def Send_def readWord_writeWord)

lemma update_fresh: "k \<notin> fst ` set m \<Longrightarrow> AList.update k v m = m @ [(k, v)]"
  by (induction m) auto

lemma updates_distinct:
  "distinct (map fst (m @ kvs)) \<Longrightarrow>
     foldl (\<lambda>m kv. AList.update (fst kv) (snd kv) m) m kvs = m @ kvs"
proof (induction kvs arbitrary: m)
  case (Cons kv kvs)
  have "AList.update (fst kv) (snd kv) m = m @ [kv]" using Cons.prems by (simp add: update_fresh)
  moreover have "distinct (map fst ((m @ [kv]) @ kvs))" using Cons.prems by simp
  ultimately show ?case using Cons.IH by simp
qed simp

lemma Recv_re: "row_ok m \<Longrightarrow> Recv (re_sentence m @ r) = Inr (\<lparr>reply = ''!re'', words = m\<rparr>, r)"
  by (simp add: re_sentence_def Recv_sentence row_ok_def updates_distinct word_ok_def)

lemma Recv_done: "Recv (Send [''!done''] @ r) = Inr (\<lparr>reply = ''!done'', words = []\<rparr>, r)"
  using Recv_sentence [of "''!done''" "[]" r] by (simp add: word_ok_def)

lemma Recv_trap:
  "word_ok (attr_word (''message'', msg)) \<Longrightarrow> Recv (Send [''!trap'', attr_word (''message'', msg)] @ r) =
     Inr (\<lparr>reply = ''!trap'', words = [(''message'', msg)]\<rparr>, r)"
  using Recv_sentence [of "''!trap''" "[(''message'', msg)]" r] by (simp add: word_ok_def)

lemma call_loop_answer:
  "\<forall>m \<in> set ms. row_ok m \<Longrightarrow> call_loop (answer ms @ r) rows = (Inr (rows @ ms), r)"
proof (induction ms arbitrary: rows)
  case Nil
  show ?case by (subst call_loop.simps) (simp add: answer_def Recv_done)
next
  case (Cons m ms)
  have "Recv (answer (m # ms) @ r) = Inr (\<lparr>reply = ''!re'', words = m\<rparr>, answer ms @ r)"
    using Cons.prems Recv_re [of m "answer ms @ r"] by (simp add: answer_def)
  then show ?case using Cons by (subst call_loop.simps) simp
qed

lemma call_loop_trap:
  "word_ok (attr_word (''message'', msg)) \<Longrightarrow>
     call_loop (trap_answer msg) rows = (Inl (Trap [] msg), Send [''!done''])"
  by (subst call_loop.simps) (simp add: trap_answer_def Recv_trap fld_def)

lemma login_loop_done: "login_loop (Send [''!done''] @ r) = Inr r"
  by (subst login_loop.simps) (simp add: Recv_done)

text \<open>
  C19. An exchange returns exactly the router's records: on a connection with nothing unread,
  if the router answers the request with record sentences and \<open>!done\<close>, \<open>Call\<close> sends the
  request once, returns these records in order and leaves the connection clean for the next
  request.
\<close>

theorem Call_returns_records:
  assumes "d_conn d = Some []" "tr_send tr (Send (cmd # args)) w = (Some (answer ms), w')"
    and "\<forall>m \<in> set ms. row_ok m"
  shows "Call tr d cmd args w = (Inr ms, d, w')"
proof -
  have "call_loop (answer ms) [] = (Inr ms, [])"
    using call_loop_answer [OF assms(3), of "[]" "[]"] by simp
  then have "call tr d cmd args w = (Inr ms, d, w')"
    using assms(1,2) by (simp add: call_def ensure_def)
  then show ?thesis by (simp add: Call_def)
qed

text \<open>A router as a transport: it answers each sentence by a function, connects always and
  logs what was sent to it.\<close>

definition scripted :: "(bytes \<Rightarrow> bytes) \<Rightarrow> bytes list transport" where
  "scripted f = \<lparr>tr_dial = (\<lambda>addr useTLS w. (True, w)), tr_send = (\<lambda>b w. (Some (f b), w @ [b]))\<rparr>"

theorem Call_returns_records_witness:
  "Call (scripted (\<lambda>_. answer [[(''.id'', ''*1'')]]))
     \<lparr>d_Address = ''10.0.0.1'', d_Port = 8728, d_UseTLS = False, d_User = ''admin'',
       d_Password = ''x'', d_conn = Some []\<rparr> ''/ip/address/print'' [] [] =
   (Inr [[(''.id'', ''*1'')]],
    \<lparr>d_Address = ''10.0.0.1'', d_Port = 8728, d_UseTLS = False, d_User = ''admin'',
      d_Password = ''x'', d_conn = Some []\<rparr>, [Send [''/ip/address/print'']])"
  by (rule Call_returns_records) (simp_all add: scripted_def row_ok_def word_ok_def attr_word_def)

text \<open>
  The connection state after a call: an error leaves the dialer disconnected, so the next
  call dials and logs in afresh and never reads a stale reply; a success leaves it connected.
  The credentials never change.
\<close>

lemma Call_conn_state:
  "case Call tr d cmd args w of (res, d', w') \<Rightarrow>
     d'\<lparr>d_conn := d_conn d\<rparr> = d \<and> (d_conn d' = None \<longleftrightarrow> (\<exists>e. res = Inl e))"
proof -
  have c: "d'\<lparr>d_conn := x\<rparr> = d\<lparr>d_conn := x\<rparr> \<and> (\<forall>rows. res = Inr rows \<longrightarrow> d_conn d' \<noteq> None)"
    if "call tr d cmd args w = (res, d', w')" for d res d' w w' x
    using that
    by (auto simp: call_def ensure_def Let_def split: option.splits prod.splits sum.splits)
  obtain r1 d1 w1 where 1: "call tr d cmd args w = (r1, d1, w1)" by (metis prod_cases3)
  obtain r2 d2 w2 where 2: "call tr (drop_conn d1) cmd args w1 = (r2, d2, w2)" by (metis prod_cases3)
  show ?thesis
    using c [OF 1, of "d_conn d"] c [OF 2, of "d_conn d"] 1 2
    by (cases r1; cases r2) (auto simp: Call_def drop_conn_def)
qed


text \<open>
  A definite refusal is repeated: when the router answers the command itself with
  \<open>!trap\<close>, \<open>Call\<close> reconnects, logs in and sends the same command a second time before it
  reports the trap. The router sees every refused command twice.
\<close>

lemma trap_is_retried:
  assumes "word_ok (attr_word (''message'', msg))"
    and "f (Send (cmd # args)) = trap_answer msg"
    and "f (Send (login_words (d_User d) (d_Password d))) = Send [''!done'']"
    and "d_conn d = Some []"
  shows "Call (scripted f) d cmd args log =
    (Inl (Trap [] msg), drop_conn d,
     log @ [Send (cmd # args), Send (login_words (d_User d) (d_Password d)), Send (cmd # args)])"
proof -
  have t: "call_loop (trap_answer msg) [] = (Inl (Trap [] msg), Send [''!done''])"
    by (rule call_loop_trap [OF assms(1)])
  have l: "login_loop (Send [''!done'']) = Inr []" using login_loop_done [of "[]"] by simp
  show ?thesis
    using assms(2-4) t l
    by (simp add: Call_def call_def ensure_def Dial_def login_def scripted_def drop_conn_def)
qed

text \<open>
  The dialer's address is not dialable for an IPv6 router: it is joined without brackets,
  so Go's \<open>SplitHostPort\<close> rejects it, while the web server's reachability test, which uses
  \<open>JoinHostPort\<close>, accepts the same host.
\<close>

lemma ipv6_router_address_not_dialable:
  assumes "CHR '':'' \<in> set (d_Address d)" "CHR ''['' \<notin> set (d_Address d)"
    and "CHR '']'' \<notin> set (d_Address d)" "0 \<le> d_Port d"
  shows "SplitHostPort (d_addr d) = None \<and>
    SplitHostPort (JoinHostPort (d_Address d) (Itoa (d_Port d))) =
      Some (d_Address d, Itoa (d_Port d))"
proof
  let ?p = "Itoa (d_Port d)"
  have p: "set ?p \<inter> {CHR '':'', CHR ''['', CHR '']''} = {}"
    using assms(4) nat_digits_digits not_digit by (auto simp: Itoa_def)
  then show "SplitHostPort (JoinHostPort (d_Address d) ?p) = Some (d_Address d, ?p)"
    using assms by (intro SplitHostPort_Join)
  have "last_index_byte (d_Address d @ CHR '':'' # ?p) CHR '':'' = Some (length (d_Address d))"
    by (rule last_index_byte_append) (use p in auto)
  moreover have "hd (d_Address d @ CHR '':'' # ?p) \<noteq> CHR ''[''"
    using assms(1,2) by (cases "d_Address d") auto
  ultimately show "SplitHostPort (d_addr d) = None"
    using assms(1) by (simp add: SplitHostPort_def d_addr_def)
qed

end
