(* ===== verification/Router_Api.thy ===== *)
theory Router_Api
  imports Binapi_Client
begin

text \<open>
  Package \<open>router\<close>, file \<open>api.go\<close> (its command helpers) and the \<open>Config\<close> of
  \<open>poller.go\<close>: one shared dialer per set of credentials, and the four commands every other
  file of the package uses. \<open>ros\<close> is that interface; \<open>binapi_ros\<close> is its implementation
  over the binary API.
\<close>

section \<open>Configuration\<close>

record rconfig =
  rc_Address :: string
  rc_APIPort :: int
  rc_APITLS :: bool
  rc_User :: string
  rc_Password :: string
  rc_Iface :: string
  rc_Interval :: int
  rc_Mode :: string

definition ModeServer :: string where "ModeServer = ''server''"
definition ModeClient :: string where "ModeClient = ''client''"

definition PeerMarker :: string where "PeerMarker = ''[awgproxy]''"

section \<open>The dialer cache\<close>

type_synonym dialerKey = "string \<times> int \<times> bool \<times> string \<times> string"

record 'w rstate =
  dialers :: "dialerKey \<rightharpoonup> dialer"
  world :: 'w

definition dialer_key :: "rconfig \<Rightarrow> dialerKey" where
  "dialer_key c = (rc_Address c, rc_APIPort c, rc_APITLS c, rc_User c, rc_Password c)"

definition new_dialer :: "rconfig \<Rightarrow> dialer" where
  "new_dialer c = \<lparr>d_Address = rc_Address c, d_Port = rc_APIPort c, d_UseTLS = rc_APITLS c,
     d_User = rc_User c, d_Password = rc_Password c, d_conn = None\<rparr>"

text \<open>\<open>Dialer\<close>: the cached dialer of the credentials, created on first use; \<open>None\<close> without an
  address.\<close>

definition Dialer :: "rconfig \<Rightarrow> 'w rstate \<Rightarrow> dialer option \<times> 'w rstate" where
  "Dialer c st =
     (if rc_Address c = [] then (None, st)
      else case dialers st (dialer_key c) of
          Some d \<Rightarrow> (Some d, st)
        | None \<Rightarrow> (let d = new_dialer c in (Some d, st\<lparr>dialers := (dialers st)(dialer_key c \<mapsto> d)\<rparr>)))"

text \<open>A command through the cached dialer: it is shared by reference, so its new connection
  state goes back into the cache.\<close>

definition with_dialer ::
  "rconfig \<Rightarrow> (dialer \<Rightarrow> 'w \<Rightarrow> (gerror + 'a) \<times> dialer \<times> 'w) \<Rightarrow>
   'w rstate \<Rightarrow> (gerror + 'a) \<times> 'w rstate" where
  "with_dialer c f st =
     (case Dialer c st of
        (None, st) \<Rightarrow> (Inl (Msg ''no router credentials''), st)
      | (Some d, st) \<Rightarrow>
          (case f d (world st) of (r, d', w') \<Rightarrow>
             (r, st\<lparr>dialers := (dialers st)(dialer_key c \<mapsto> d'), world := w'\<rparr>)))"

definition callPrint ::
  "'w transport \<Rightarrow> rconfig \<Rightarrow> string \<Rightarrow> 'w rstate \<Rightarrow> (gerror + row list) \<times> 'w rstate" where
  "callPrint tr c path = with_dialer c (\<lambda>d. dial_Print tr d path [])"

definition callAdd ::
  "'w transport \<Rightarrow> rconfig \<Rightarrow> string \<Rightarrow> row \<Rightarrow> 'w rstate \<Rightarrow> (gerror + string) \<times> 'w rstate" where
  "callAdd tr c path kv = with_dialer c (\<lambda>d. dial_Add tr d path kv)"

definition callSet ::
  "'w transport \<Rightarrow> rconfig \<Rightarrow> string \<Rightarrow> string \<Rightarrow> row \<Rightarrow> 'w rstate \<Rightarrow> (gerror + unit) \<times> 'w rstate" where
  "callSet tr c path rid kv = with_dialer c (\<lambda>d. dial_Set tr d path rid kv)"

definition callRemove ::
  "'w transport \<Rightarrow> rconfig \<Rightarrow> string \<Rightarrow> string \<Rightarrow> 'w rstate \<Rightarrow> (gerror + unit) \<times> 'w rstate" where
  "callRemove tr c path rid = with_dialer c (\<lambda>d. dial_Remove tr d path rid)"

section \<open>The interface of the commands\<close>

record 's ros =
  ros_print :: "string \<Rightarrow> 's \<Rightarrow> (gerror + row list) \<times> 's"
  ros_add :: "string \<Rightarrow> row \<Rightarrow> 's \<Rightarrow> (gerror + string) \<times> 's"
  ros_set :: "string \<Rightarrow> string \<Rightarrow> row \<Rightarrow> 's \<Rightarrow> (gerror + unit) \<times> 's"
  ros_remove :: "string \<Rightarrow> string \<Rightarrow> 's \<Rightarrow> (gerror + unit) \<times> 's"

definition binapi_ros :: "'w transport \<Rightarrow> rconfig \<Rightarrow> 'w rstate ros" where
  "binapi_ros tr c = \<lparr>ros_print = callPrint tr c, ros_add = callAdd tr c,
     ros_set = callSet tr c, ros_remove = callRemove tr c\<rparr>"

text \<open>
  What the callers rely on of the router behind a working connection (RouterOS's documented
  behaviour of these menus): every menu is a table of records with distinct ids; \<open>print\<close>
  lists it, \<open>add\<close> appends a record with a new id, \<open>set\<close> overwrites the given fields of the
  record with the id, \<open>remove\<close> deletes it; no command touches another menu, and none
  fails. \<open>tbl\<close> is the table a state holds.
\<close>

definition set_fields :: "row \<Rightarrow> row \<Rightarrow> row" where
  "set_fields kv r = foldl (\<lambda>r p. AList.update (fst p) (snd p) r) r kv"

definition table_router :: "'s ros \<Rightarrow> ('s \<Rightarrow> string \<Rightarrow> row list) \<Rightarrow> bool" where
  "table_router ros tbl \<longleftrightarrow>
     (\<forall>p s. \<exists>s'. ros_print ros p s = (Inr (tbl s p), s') \<and> tbl s' = tbl s) \<and>
     (\<forall>p kv s. \<exists>s' rid. ros_add ros p kv s = (Inr rid, s') \<and>
        rid \<notin> (\<lambda>r. fld r ''.id'') ` set (tbl s p) \<and>
        tbl s' = (tbl s)(p := tbl s p @ [(''.id'', rid) # kv])) \<and>
     (\<forall>p rid kv s. \<exists>s'. ros_set ros p rid kv s = (Inr (), s') \<and>
        tbl s' = (tbl s)(p := map (\<lambda>r. if fld r ''.id'' = rid then set_fields kv r else r) (tbl s p))) \<and>
     (\<forall>p rid s. \<exists>s'. ros_remove ros p rid s = (Inr (), s') \<and>
        tbl s' = (tbl s)(p := filter (\<lambda>r. fld r ''.id'' \<noteq> rid) (tbl s p)))"

definition ids_distinct :: "row list \<Rightarrow> bool" where
  "ids_distinct t \<longleftrightarrow> distinct (map (\<lambda>r. fld r ''.id'') t)"

section \<open>Lemmas\<close>

lemma map_of_set_fields: "map_of (set_fields kv r) = map_of r ++ map_of (rev kv)"
proof (induction kv arbitrary: r)
  case Nil
  then show ?case by (simp add: set_fields_def)
next
  case (Cons p kv)
  then show ?case
    by (simp add: set_fields_def AList.update_conv' fun_eq_iff map_add_def split: option.split)
qed

lemma map_of_rev: "distinct (map fst kv) \<Longrightarrow> map_of (rev kv) = map_of kv"
  by (rule map_of_inject_set [THEN iffD2]) (simp_all add: rev_map [symmetric] distinct_rev)

lemma fld_set_fields:
  "distinct (map fst kv) \<Longrightarrow>
     fld (set_fields kv r) k = (case map_of kv k of Some v \<Rightarrow> v | None \<Rightarrow> fld r k)"
  by (simp add: fld_def map_of_set_fields map_of_rev map_add_def split: option.split)

text \<open>A record holds the wanted fields.\<close>

definition holds_fields :: "row \<Rightarrow> row \<Rightarrow> bool" where
  "holds_fields kv r \<longleftrightarrow> (\<forall>p \<in> set kv. fld r (fst p) = snd p)"

lemma holds_added:
  "distinct (map fst kv) \<Longrightarrow> k \<notin> fst ` set kv \<Longrightarrow> holds_fields kv ((k, v) # kv)"
  by (auto simp: holds_fields_def fld_def image_iff dest: map_of_is_SomeI)

text \<open>Setting just the fields that differ is enough.\<close>

lemma holds_diff:
  assumes "distinct (map fst kv)"
  shows "holds_fields kv (set_fields (filter (\<lambda>p. fld r (fst p) \<noteq> snd p) kv) r)"
  unfolding holds_fields_def
proof
  fix p assume p: "p \<in> set kv"
  let ?d = "filter (\<lambda>p. fld r (fst p) \<noteq> snd p) kv"
  have d: "distinct (map fst ?d)" using assms by (rule distinct_map_filter)
  show "fld (set_fields ?d r) (fst p) = snd p"
  proof (cases "fld r (fst p) = snd p")
    case True
    have "fst p \<notin> fst ` set ?d"
    proof
      assume "fst p \<in> fst ` set ?d"
      then obtain q where q: "q \<in> set kv" "fst q = fst p" "fld r (fst q) \<noteq> snd q" by auto
      with assms p have "q = p" by (auto simp: distinct_map inj_on_def)
      with q True show False by simp
    qed
    then have "map_of ?d (fst p) = None" by (simp add: map_of_eq_None_iff)
    with True show ?thesis by (simp add: fld_set_fields [OF d])
  next
    case False
    with p have "(fst p, snd p) \<in> set ?d" by simp
    then have "map_of ?d (fst p) = Some (snd p)" using d by (rule map_of_is_SomeI [rotated])
    then show ?thesis by (simp add: fld_set_fields [OF d])
  qed
qed

lemma fld_set_fields_other:
  "k \<notin> fst ` set kv \<Longrightarrow> fld (set_fields kv r) k = fld r k"
  by (simp add: fld_def map_of_set_fields map_add_def map_of_eq_None_iff [THEN iffD2] split: option.split)

section \<open>The commands on a table\<close>

lemma table_printE:
  assumes "table_router ros tbl"
  obtains s' where "ros_print ros p s = (Inr (tbl s p), s')" "tbl s' = tbl s"
  using assms unfolding table_router_def by blast

lemma table_addE:
  assumes "table_router ros tbl"
  obtains s' rid where "ros_add ros p kv s = (Inr rid, s')" "rid \<notin> (\<lambda>r. fld r ''.id'') ` set (tbl s p)"
    "tbl s' = (tbl s)(p := tbl s p @ [(''.id'', rid) # kv])"
  using assms unfolding table_router_def by blast

lemma table_setE:
  assumes "table_router ros tbl"
  obtains s' where "ros_set ros p rid kv s = (Inr (), s')"
    "tbl s' = (tbl s)(p := map (\<lambda>r. if fld r ''.id'' = rid then set_fields kv r else r) (tbl s p))"
  using assms unfolding table_router_def by blast

lemma table_removeE:
  assumes "table_router ros tbl"
  obtains s' where "ros_remove ros p rid s = (Inr (), s')"
    "tbl s' = (tbl s)(p := filter (\<lambda>r. fld r ''.id'' \<noteq> rid) (tbl s p))"
  using assms unfolding table_router_def by blast

section \<open>Tables of records\<close>

abbreviation rec_id :: "row \<Rightarrow> string" where "rec_id r \<equiv> fld r ''.id''"

text \<open>Removing the records with some ids, and updating the record with an id, seen through a
  predicate \<open>P\<close> that the ids respect.\<close>

lemma ids_distinct_filter: "ids_distinct t \<Longrightarrow> ids_distinct (filter Q t)"
  by (simp add: ids_distinct_def distinct_map_filter)

lemma ids_distinct_inj: "ids_distinct t \<Longrightarrow> r \<in> set t \<Longrightarrow> r' \<in> set t \<Longrightarrow> rec_id r = rec_id r' \<Longrightarrow> r = r'"
  by (auto simp: ids_distinct_def distinct_map inj_on_def)

lemma ids_distinct_append:
  "ids_distinct t \<Longrightarrow> rec_id r \<notin> rec_id ` set t \<Longrightarrow> ids_distinct (t @ [r])"
  by (auto simp: ids_distinct_def)

lemma ids_distinct_update:
  "ids_distinct t \<Longrightarrow> (\<And>r. r \<in> set t \<Longrightarrow> rec_id (f r) = rec_id r) \<Longrightarrow> ids_distinct (map f t)"
  by (simp add: ids_distinct_def cong: map_cong)

lemma remove_keeps_rest:
  assumes "ids_distinct t" "I \<subseteq> rec_id ` set (filter P t)"
  shows "filter (\<lambda>r. \<not> P r) (filter (\<lambda>r. rec_id r \<notin> I) t) = filter (\<lambda>r. \<not> P r) t"
proof -
  have "rec_id r \<notin> I" if "r \<in> set t" "\<not> P r" for r
  proof
    assume "rec_id r \<in> I"
    with assms obtain r' where "r' \<in> set t" "P r'" "rec_id r = rec_id r'" by auto
    with ids_distinct_inj [OF assms(1) \<open>r \<in> set t\<close>] that show False by metis
  qed
  then have "filter (\<lambda>r. rec_id r \<notin> I \<and> \<not> P r) t = filter (\<lambda>r. \<not> P r) t"
    by (intro filter_cong) auto
  then show ?thesis by (simp add: conj_commute)
qed

lemma remove_all_but_first:
  assumes "ids_distinct t" "filter P t = r # rs"
  shows "filter P (filter (\<lambda>r. rec_id r \<notin> rec_id ` set rs) t) = [r]"
proof -
  have d: "ids_distinct (r # rs)" using ids_distinct_filter [OF assms(1), of P] assms(2) by simp
  have "filter P (filter (\<lambda>r. rec_id r \<notin> rec_id ` set rs) t) =
      filter (\<lambda>r. rec_id r \<notin> rec_id ` set rs) (r # rs)"
    by (simp add: conj_commute flip: assms(2))
  also have "\<dots> = [r]" using d by (auto simp: ids_distinct_def filter_empty_conv)
  finally show ?thesis .
qed

text \<open>What a reconciler promises about a table: exactly one record of its own (\<open>P\<close>), with
  the wanted fields; the other records as they were.\<close>

definition reconciled :: "(row \<Rightarrow> bool) \<Rightarrow> row \<Rightarrow> row list \<Rightarrow> row list \<Rightarrow> bool" where
  "reconciled P want t t' \<longleftrightarrow>
     (\<exists>r. filter P t' = [r] \<and> holds_fields want r) \<and>
     filter (\<lambda>r. \<not> P r) t' = filter (\<lambda>r. \<not> P r) t \<and> ids_distinct t'"

lemma reconciled_trans:
  "reconciled P want t2 t3 \<Longrightarrow> filter (\<lambda>r. \<not> P r) t2 = filter (\<lambda>r. \<not> P r) t1 \<Longrightarrow> reconciled P want t1 t3"
  by (simp add: reconciled_def)

lemma reconciled_keep:
  "ids_distinct t \<Longrightarrow> filter P t = [r] \<Longrightarrow> holds_fields want r \<Longrightarrow> reconciled P want t t"
  by (simp add: reconciled_def)

lemma reconciled_add:
  assumes "ids_distinct t" "filter P t = []" "rid \<notin> rec_id ` set t"
    and "distinct (map fst want)" "''.id'' \<notin> fst ` set want"
    and P: "\<And>r. holds_fields want r \<Longrightarrow> P r"
  shows "reconciled P want t (t @ [(''.id'', rid) # want])"
proof -
  let ?r = "(''.id'', rid) # want"
  have h: "holds_fields want ?r" using assms(4,5) by (rule holds_added)
  have "ids_distinct (t @ [?r])"
    by (rule ids_distinct_append) (use assms(1,3) in \<open>simp_all add: fld_def\<close>)
  with h P [OF h] assms(2) show ?thesis by (simp add: reconciled_def)
qed

lemma reconciled_set:
  assumes t: "ids_distinct t" "filter P t = [r]"
    and want: "distinct (map fst want)" "''.id'' \<notin> fst ` set want"
    and P: "\<And>r. holds_fields want r \<Longrightarrow> P r"
  shows "reconciled P want t (map (\<lambda>x. if rec_id x = rec_id r
      then set_fields (filter (\<lambda>p. fld r (fst p) \<noteq> snd p) want) x else x) t)"
proof -
  let ?d = "filter (\<lambda>p. fld r (fst p) \<noteq> snd p) want"
  let ?f = "\<lambda>x. if rec_id x = rec_id r then set_fields ?d x else x"
  have r: "r \<in> set t" "P r" using t(2) by (auto dest: filter_eq_ConsD simp: filter_eq_Cons_iff)
  have f: "?f x = (if x = r then set_fields ?d r else x)" if "x \<in> set t" for x
    using ids_distinct_inj [OF t(1) that r(1)] by auto
  have h: "holds_fields want (set_fields ?d r)" using want(1) by (rule holds_diff)
  have Pf: "P (?f x) = P x" if "x \<in> set t" for x
    using f [OF that] r(2) P [OF h] by auto
  have "filter P (map ?f t) = map ?f (filter P t)"
    by (simp add: filter_map o_def Pf cong: filter_cong)
  then have 1: "filter P (map ?f t) = [set_fields ?d r]" using t(2) by simp
  have "filter (\<lambda>x. \<not> P x) (map ?f t) = map ?f (filter (\<lambda>x. \<not> P x) t)"
    by (simp add: filter_map o_def Pf cong: filter_cong)
  also have "\<dots> = filter (\<lambda>x. \<not> P x) t"
    by (rule map_idI) (use f r(2) in auto)
  finally have 2: "filter (\<lambda>x. \<not> P x) (map ?f t) = filter (\<lambda>x. \<not> P x) t" .
  have "''.id'' \<notin> fst ` set ?d" using want(2) by auto
  then have "rec_id (?f x) = rec_id x" for x
    using fld_set_fields_other [of "''.id''" ?d x] by simp
  then have "ids_distinct (map ?f t)" by (intro ids_distinct_update [OF t(1)])
  with 1 2 h show ?thesis by (simp add: reconciled_def)
qed

lemma reconciled_recreate:
  assumes t: "ids_distinct t" "filter P t = [r]"
    and new: "rid \<notin> rec_id ` set (filter (\<lambda>x. rec_id x \<noteq> rec_id r) t)"
    and want: "distinct (map fst want)" "''.id'' \<notin> fst ` set want"
    and P: "\<And>r. holds_fields want r \<Longrightarrow> P r"
  shows "reconciled P want t (filter (\<lambda>x. rec_id x \<noteq> rec_id r) t @ [(''.id'', rid) # want])"
proof (rule reconciled_trans)
  have "r \<in> set (filter P t)" using t(2) by simp
  then have r: "rec_id r \<in> rec_id ` set (filter P t)" by blast
  show "filter (\<lambda>x. \<not> P x) (filter (\<lambda>x. rec_id x \<noteq> rec_id r) t) = filter (\<lambda>x. \<not> P x) t"
    using remove_keeps_rest [OF t(1), of "{rec_id r}" P] r by simp
  have "filter P (filter (\<lambda>x. rec_id x \<noteq> rec_id r) t) = filter (\<lambda>x. rec_id x \<noteq> rec_id r) (filter P t)"
    by (simp add: conj_commute)
  then have "filter P (filter (\<lambda>x. rec_id x \<noteq> rec_id r) t) = []" using t(2) by simp
  then show "reconciled P want (filter (\<lambda>x. rec_id x \<noteq> rec_id r) t)
      (filter (\<lambda>x. rec_id x \<noteq> rec_id r) t @ [(''.id'', rid) # want])"
    by (rule reconciled_add [OF ids_distinct_filter [OF t(1)] _ new want P])
qed

text \<open>Surplus records are removed before the first one is adjusted.\<close>

lemma reconciled_surplus:
  assumes t: "ids_distinct t" "filter P t = r # rs"
    and step: "\<And>t1. ids_distinct t1 \<Longrightarrow> filter P t1 = [r] \<Longrightarrow>
      t1 = filter (\<lambda>x. rec_id x \<notin> rec_id ` set rs) t \<Longrightarrow> reconciled P want t1 t'"
  shows "reconciled P want t t'"
proof (rule reconciled_trans)
  show "reconciled P want (filter (\<lambda>x. rec_id x \<notin> rec_id ` set rs) t) t'"
    by (rule step [OF ids_distinct_filter [OF t(1)] remove_all_but_first [OF t] refl])
  show "filter (\<lambda>x. \<not> P x) (filter (\<lambda>x. rec_id x \<notin> rec_id ` set rs) t) = filter (\<lambda>x. \<not> P x) t"
    using t(2) by (intro remove_keeps_rest [OF t(1)]) auto
qed

section \<open>A router in memory\<close>

text \<open>An instance of \<open>table_router\<close>: the state is the tables; a new record gets an id longer
  than all ids of its table.\<close>

definition fresh_id :: "row list \<Rightarrow> string" where
  "fresh_id t = replicate (Suc (sum_list (map (\<lambda>r. length (rec_id r)) t))) CHR ''*''"

definition mem_ros :: "(string \<Rightarrow> row list) ros" where
  "mem_ros = \<lparr>ros_print = \<lambda>p s. (Inr (s p), s),
     ros_add = \<lambda>p kv s. (Inr (fresh_id (s p)), s(p := s p @ [(''.id'', fresh_id (s p)) # kv])),
     ros_set = \<lambda>p i kv s. (Inr (), s(p := map (\<lambda>r. if rec_id r = i then set_fields kv r else r) (s p))),
     ros_remove = \<lambda>p i s. (Inr (), s(p := filter (\<lambda>r. rec_id r \<noteq> i) (s p)))\<rparr>"

lemma fresh_id: "fresh_id t \<notin> rec_id ` set t"
proof
  assume "fresh_id t \<in> rec_id ` set t"
  then obtain r where r: "r \<in> set t" "fresh_id t = rec_id r" by auto
  have "length (rec_id r) \<le> sum_list (map (\<lambda>r. length (rec_id r)) t)"
    using r(1) by (simp add: member_le_sum_list)
  moreover have "length (fresh_id t) = length (rec_id r)" by (simp add: r(2))
  ultimately show False by (simp add: fresh_id_def)
qed

lemma mem_router: "table_router mem_ros (\<lambda>s. s)"
  by (simp add: table_router_def mem_ros_def fresh_id)

end
