(* ===== verification/Netip.thy ===== *)
theory Netip
  imports Go_Strings
begin

text \<open>
  What the program uses of Go's \<open>net/netip\<close>: IP addresses with their textual form. An
  IPv6 address is its eight 16-bit groups and a zone; an IPv4 address its four octets; the
  zero \<open>Addr\<close> is invalid.
\<close>

section \<open>Addresses\<close>

datatype ipaddr =
    IPNone                           \<comment> \<open>the zero \<open>Addr\<close>\<close>
  | IP4 nat nat nat nat              \<comment> \<open>octets\<close>
  | IP6 "nat list" string            \<comment> \<open>groups, zone\<close>

fun wf_ip :: "ipaddr \<Rightarrow> bool" where
  "wf_ip IPNone = True"
| "wf_ip (IP4 a b c d) = (a < 256 \<and> b < 256 \<and> c < 256 \<and> d < 256)"
| "wf_ip (IP6 grps z) = (length grps = 8 \<and> (\<forall>g \<in> set grps. g < 2 ^ 16))"

fun IsValid :: "ipaddr \<Rightarrow> bool" where
  "IsValid IPNone = False"
| "IsValid _ = True"

text \<open>\<open>Is6\<close> holds for IPv4-mapped addresses too, \<open>Is4In6\<close> for those only.\<close>

fun Is6 :: "ipaddr \<Rightarrow> bool" where
  "Is6 (IP6 _ _) = True"
| "Is6 _ = False"

fun Is4In6 :: "ipaddr \<Rightarrow> bool" where
  "Is4In6 (IP6 grps _) = (take 6 grps = [0, 0, 0, 0, 0, 0xffff])"
| "Is4In6 _ = False"

fun octets_of :: "nat list \<Rightarrow> ipaddr" where
  "octets_of grps = IP4 (grps ! 6 div 256) (grps ! 6 mod 256) (grps ! 7 div 256) (grps ! 7 mod 256)"

fun Unmap :: "ipaddr \<Rightarrow> ipaddr" where
  "Unmap (IP6 grps z) = (if Is4In6 (IP6 grps z) then octets_of grps else IP6 grps z)"
| "Unmap a = a"

record addrport =
  ap_addr :: ipaddr
  ap_port :: nat

section \<open>Parsing\<close>

text \<open>\<open>parseIPv4Fields\<close>: \<open>dot\<close> says that the previous character was a dot or there was
  none.\<close>

fun ipv4_fields :: "string \<Rightarrow> bool \<Rightarrow> nat \<Rightarrow> nat \<Rightarrow> nat list \<Rightarrow> nat list option" where
  "ipv4_fields [] dot val digLen fs = (if length fs < 3 then None else Some (fs @ [val]))"
| "ipv4_fields (c # cs) dot val digLen fs =
     (case digit_val c of
        Some d \<Rightarrow>
          if digLen = 1 \<and> val = 0 then None
          else if val * 10 + d > 255 then None
          else ipv4_fields cs False (val * 10 + d) (digLen + 1) fs
      | None \<Rightarrow>
          if c = CHR ''.'' then
            (if dot \<or> cs = [] then None
             else if length fs = 3 then None
             else ipv4_fields cs True 0 0 (fs @ [val]))
          else None)"

definition parse_ipv4 :: "string \<Rightarrow> ipaddr option" where
  "parse_ipv4 s = (case ipv4_fields s True 0 0 [] of
     Some [a, b, c, d] \<Rightarrow> Some (IP4 a b c d) | _ \<Rightarrow> None)"

definition hex_val :: "char \<Rightarrow> nat option" where
  "hex_val c = (let n = of_char c :: nat in
     if 48 \<le> n \<and> n \<le> 57 then Some (n - 48)
     else if 97 \<le> n \<and> n \<le> 102 then Some (n - 87)
     else if 65 \<le> n \<and> n \<le> 70 then Some (n - 55)
     else None)"

definition is_hex :: "char \<Rightarrow> bool" where
  "is_hex c \<longleftrightarrow> hex_val c \<noteq> None"

definition hex_num :: "string \<Rightarrow> nat" where
  "hex_num = foldl (\<lambda>acc c. 16 * acc + the (hex_val c)) 0"

text \<open>The loop of \<open>parseIPv6\<close>: what is left of the text, the groups so far, the position
  of the ellipsis.\<close>

function ipv6_loop ::
  "string \<Rightarrow> nat list \<Rightarrow> nat option \<Rightarrow> (string \<times> nat list \<times> nat option) option" where
  "ipv6_loop s grps ell =
     (if length grps \<ge> 8 then Some (s, grps, ell)
      else
        let ds = takeWhile is_hex s; r = dropWhile is_hex s; grps' = grps @ [hex_num ds] in
        if length ds > 4 \<or> ds = [] then None
        else if r \<noteq> [] \<and> hd r = CHR ''.'' then
          (if ell = None \<and> length grps \<noteq> 6 then None
           else if length grps + 2 > 8 then None
           else case parse_ipv4 s of
               Some (IP4 a b c d) \<Rightarrow> Some ([], grps @ [256 * a + b, 256 * c + d], ell)
             | _ \<Rightarrow> None)
        else if r = [] then Some ([], grps', ell)
        else if hd r \<noteq> CHR '':'' \<or> length r = 1 then None
        else if hd (List.tl r) = CHR '':'' then
          (if ell \<noteq> None then None
           else if drop 2 r = [] then Some ([], grps', Some (length grps'))
           else ipv6_loop (drop 2 r) grps' (Some (length grps')))
        else ipv6_loop (List.tl r) grps' ell)"
  by pat_completeness auto
termination
  by (relation "measure (\<lambda>(s, grps, ell). 8 - length grps)") auto

declare ipv6_loop.simps [simp del]

definition parse_ipv6_body :: "string \<Rightarrow> nat list option" where
  "parse_ipv6_body s =
     (let lead = has_prefix s ''::''; s' = (if lead then drop 2 s else s) in
      if lead \<and> s' = [] then Some (replicate 8 0)
      else case ipv6_loop s' [] (if lead then Some 0 else None) of
          None \<Rightarrow> None
        | Some (rest, grps, ell) \<Rightarrow>
            if rest \<noteq> [] then None
            else if length grps < 8 then
              (case ell of None \<Rightarrow> None
               | Some e \<Rightarrow> Some (take e grps @ replicate (8 - length grps) 0 @ drop e grps))
            else if ell \<noteq> None then None
            else Some grps)"

definition parse_ipv6 :: "string \<Rightarrow> ipaddr option" where
  "parse_ipv6 s =
     (case index_byte s CHR ''%'' of
        None \<Rightarrow> map_option (\<lambda>grps. IP6 grps []) (parse_ipv6_body s)
      | Some i \<Rightarrow>
          if drop (i + 1) s = [] then None
          else map_option (\<lambda>grps. IP6 grps (drop (i + 1) s)) (parse_ipv6_body (take i s)))"

text \<open>\<open>netip.ParseAddr\<close>: the first of \<open>. : %\<close> decides; \<open>None\<close> is the error.\<close>

definition ParseAddr :: "string \<Rightarrow> ipaddr option" where
  "ParseAddr s =
     (case find (\<lambda>c. c = CHR ''.'' \<or> c = CHR '':'' \<or> c = CHR ''%'') s of
        Some c \<Rightarrow>
          if c = CHR ''.'' then parse_ipv4 s
          else if c = CHR '':'' then parse_ipv6 s
          else None
      | None \<Rightarrow> None)"

text \<open>\<open>a, _ := netip.ParseAddr(s)\<close>.\<close>

definition ParseAddr0 :: "string \<Rightarrow> ipaddr" where
  "ParseAddr0 s = (case ParseAddr s of None \<Rightarrow> IPNone | Some a \<Rightarrow> a)"

section \<open>Printing\<close>

definition hex_char :: "nat \<Rightarrow> char" where
  "hex_char d = (if d < 10 then char_of (48 + d) else char_of (87 + d))"

fun hex_digits :: "nat \<Rightarrow> string" where
  "hex_digits n = (if n < 16 then [hex_char n] else hex_digits (n div 16) @ [hex_char (n mod 16)])"

declare hex_digits.simps [simp del]

fun ipv4_string :: "nat list \<Rightarrow> string" where
  "ipv4_string [] = []"
| "ipv4_string [a] = nat_digits a"
| "ipv4_string (a # as) = nat_digits a @ CHR ''.'' # ipv4_string as"

text \<open>The first longest run of at least two zero groups, as start and end.\<close>

definition zero_run :: "nat list \<Rightarrow> nat \<Rightarrow> nat" where
  "zero_run grps i = length (takeWhile (\<lambda>g. g = 0) (drop i grps))"

definition best_run :: "nat list \<Rightarrow> (nat \<times> nat) option" where
  "best_run grps = foldl (\<lambda>best i.
     let l = zero_run grps i in
     if l \<ge> 2 \<and> (case best of None \<Rightarrow> True | Some (s, e) \<Rightarrow> l > e - s)
     then Some (i, i + l) else best) None [0..<8]"

fun groups_string :: "nat list \<Rightarrow> string" where
  "groups_string [] = []"
| "groups_string [g] = hex_digits g"
| "groups_string (g # grps) = hex_digits g @ CHR '':'' # groups_string grps"

definition ipv6_string :: "nat list \<Rightarrow> string" where
  "ipv6_string grps =
     (case best_run grps of
        None \<Rightarrow> groups_string grps
      | Some (s, e) \<Rightarrow> groups_string (take s grps) @ ''::'' @ groups_string (drop e grps))"

definition zone_suffix :: "string \<Rightarrow> string" where
  "zone_suffix z = (if z = [] then [] else CHR ''%'' # z)"

text \<open>\<open>Addr.String\<close>.\<close>

fun addr_string :: "ipaddr \<Rightarrow> string" where
  "addr_string IPNone = ''invalid IP''"
| "addr_string (IP4 a b c d) = ipv4_string [a, b, c, d]"
| "addr_string (IP6 grps z) =
     (if Is4In6 (IP6 grps z)
      then ''::ffff:'' @ (case octets_of grps of IP4 a b c d \<Rightarrow> ipv4_string [a, b, c, d] | _ \<Rightarrow> [])
      else ipv6_string grps) @ zone_suffix z"

text \<open>\<open>netip.PrefixFrom(a, 128).String()\<close> for an IPv6 address: the zone is dropped.\<close>

definition prefix128_string :: "ipaddr \<Rightarrow> string" where
  "prefix128_string a =
     (case a of IP6 grps z \<Rightarrow> addr_string (IP6 grps []) @ ''/128'' | _ \<Rightarrow> ''invalid Prefix'')"

section \<open>Prefixes\<close>

record ipprefix =
  pf_addr :: ipaddr
  pf_bits :: int          \<comment> \<open>\<open>-1\<close> in an invalid prefix\<close>

definition addr_bits :: "ipaddr \<Rightarrow> int" where
  "addr_bits a = (case a of IPNone \<Rightarrow> 0 | IP4 _ _ _ _ \<Rightarrow> 32 | IP6 _ _ \<Rightarrow> 128)"

definition without_zone :: "ipaddr \<Rightarrow> ipaddr" where
  "without_zone a = (case a of IP6 grps z \<Rightarrow> IP6 grps [] | _ \<Rightarrow> a)"

definition PrefixFrom :: "ipaddr \<Rightarrow> int \<Rightarrow> ipprefix" where
  "PrefixFrom a b =
     \<lparr>pf_addr = without_zone a,
      pf_bits = (if a \<noteq> IPNone \<and> 0 \<le> b \<and> b \<le> addr_bits a then b else -1)\<rparr>"

definition PrefixValid :: "ipprefix \<Rightarrow> bool" where
  "PrefixValid p \<longleftrightarrow> 0 \<le> pf_bits p"

definition prefix_string :: "ipprefix \<Rightarrow> string" where
  "prefix_string p =
     (if PrefixValid p then addr_string (pf_addr p) @ ''/'' @ Itoa (pf_bits p) else ''invalid Prefix'')"

text \<open>\<open>ParsePrefix\<close>: no zone, no sign and no leading zero in the length.\<close>

definition ParsePrefix :: "string \<Rightarrow> ipprefix option" where
  "ParsePrefix s =
     (case last_index_byte s CHR ''/'' of
        None \<Rightarrow> None
      | Some i \<Rightarrow>
     (case ParseAddr (take i s) of
        None \<Rightarrow> None
      | Some a \<Rightarrow>
          (let b = drop (i + 1) s in
           if (case a of IP6 _ z \<Rightarrow> z \<noteq> [] | _ \<Rightarrow> False) then None
           else if length b > 1 \<and> (case digit_val (hd b) of None \<Rightarrow> True | Some d \<Rightarrow> d = 0) then None
           else case Atoi b of (n, ok) \<Rightarrow>
             if \<not> ok \<or> n < 0 \<or> n > addr_bits a then None
             else Some (PrefixFrom a n))))"

text \<open>\<open>Masked\<close>: \<open>keep_high w k g\<close> is a \<open>w\<close>-bit group with all but its \<open>k\<close> high bits cleared.\<close>

definition keep_high :: "nat \<Rightarrow> nat \<Rightarrow> nat \<Rightarrow> nat" where
  "keep_high w k g = (let u = w - min w k in g div 2 ^ u * 2 ^ u)"

fun mask_groups :: "nat \<Rightarrow> nat \<Rightarrow> nat list \<Rightarrow> nat list" where
  "mask_groups w k [] = []"
| "mask_groups w k (g # grps) = keep_high w k g # mask_groups w (k - w) grps"

definition Masked :: "ipprefix \<Rightarrow> ipprefix" where
  "Masked p =
     (if \<not> PrefixValid p then p
      else (let k = nat (pf_bits p) in
        PrefixFrom
          (case pf_addr p of
             IP4 a b c d \<Rightarrow>
               (case mask_groups 8 k [a, b, c, d] of [a, b, c, d] \<Rightarrow> IP4 a b c d | _ \<Rightarrow> IPNone)
           | IP6 grps z \<Rightarrow> IP6 (mask_groups 16 k grps) []
           | IPNone \<Rightarrow> IPNone)
          (pf_bits p)))"

end
