(* ===== verification/Base64.thy ===== *)
theory Base64
  imports Go_Strings
begin

text \<open>
  Go's \<open>base64.StdEncoding\<close>, as far as the WireGuard keys need it: padded, not strict
  (stray low bits of the last character are ignored), carriage returns and newlines skipped
  when decoding.
\<close>

definition b64_char :: "nat \<Rightarrow> char" where
  "b64_char v = char_of (if v < 26 then 65 + v else if v < 52 then 71 + v
     else if v < 62 then v - 4 else if v = 62 then 43 else 47)"

definition b64_val :: "char \<Rightarrow> nat option" where
  "b64_val c = (let n = of_char c :: nat in
     if 65 \<le> n \<and> n \<le> 90 then Some (n - 65)
     else if 97 \<le> n \<and> n \<le> 122 then Some (n - 71)
     else if 48 \<le> n \<and> n \<le> 57 then Some (n + 4)
     else if n = 43 then Some 62
     else if n = 47 then Some 63
     else None)"

fun b64_encode :: "bytes \<Rightarrow> string" where
  "b64_encode [] = []"
| "b64_encode [x] =
     (let a = unat x in [b64_char (a div 4), b64_char (a mod 4 * 16), CHR ''='', CHR ''=''])"
| "b64_encode [x, y] =
     (let a = unat x; b = unat y in
      [b64_char (a div 4), b64_char (a mod 4 * 16 + b div 16), b64_char (b mod 16 * 4), CHR ''=''])"
| "b64_encode (x # y # z # bs) =
     (let a = unat x; b = unat y; c = unat z in
      b64_char (a div 4) # b64_char (a mod 4 * 16 + b div 16) #
      b64_char (b mod 16 * 4 + c div 64) # b64_char (c mod 64) # b64_encode bs)"

fun b64_quads :: "string \<Rightarrow> bytes option" where
  "b64_quads [] = Some []"
| "b64_quads (p # q # r # s # cs) =
     (case (b64_val p, b64_val q) of
        (Some a, Some b) \<Rightarrow>
          (case b64_val r of
             Some c \<Rightarrow>
               (case b64_val s of
                  Some d \<Rightarrow> map_option (\<lambda>bs. of_nat (a * 4 + b div 16) #
                      of_nat (b mod 16 * 16 + c div 4) # of_nat (c mod 4 * 64 + d) # bs)
                    (b64_quads cs)
                | None \<Rightarrow>
                    if s = CHR ''='' \<and> cs = []
                    then Some [of_nat (a * 4 + b div 16), of_nat (b mod 16 * 16 + c div 4)]
                    else None)
           | None \<Rightarrow>
               if r = CHR ''='' \<and> s = CHR ''='' \<and> cs = []
               then Some [of_nat (a * 4 + b div 16)] else None)
      | _ \<Rightarrow> None)"
| "b64_quads _ = None"

definition b64_decode :: "string \<Rightarrow> bytes option" where
  "b64_decode s = b64_quads (filter (\<lambda>c. of_char c \<noteq> (10 :: nat) \<and> of_char c \<noteq> (13 :: nat)) s)"

section \<open>Lemmas\<close>

lemma b64_val_char [simp]: "v < 64 \<Longrightarrow> b64_val (b64_char v) = Some v"
  by (simp add: b64_val_def b64_char_def Let_def) arith

lemma b64_val_pad [simp]: "b64_val CHR ''='' = None"
  by (simp add: b64_val_def)

lemma b64_char_plain: "v < 64 \<Longrightarrow> plain_char (b64_char v)"
  by (simp add: b64_char_def plain_char_def) arith

lemma byte_bound: "unat (x :: byte) < 256"
  using unsigned_less [of x] by simp

lemma b64_bits:
  assumes "a < 256" "b < 256" "c < (256 :: nat)"
  shows "a div 4 < 64" "a mod 4 * 16 + b div 16 < 64" "b mod 16 * 4 + c div 64 < 64" "c mod 64 < 64"
    "a mod 4 * 16 < 64" "b mod 16 * 4 < 64"
    "a div 4 * 4 + (a mod 4 * 16 + b div 16) div 16 = a"
    "(a mod 4 * 16 + b div 16) mod 16 * 16 + (b mod 16 * 4 + c div 64) div 4 = b"
    "(b mod 16 * 4 + c div 64) mod 4 * 64 + c mod 64 = c"
proof -
  have b: "b div 16 < 16" "c div 64 < 4" using assms by (simp_all add: div_less_iff_less_mult)
  have m: "a mod 4 < 4" "b mod 16 < 16" "c mod 64 < 64" by simp_all
  have d: "(x * n + y) div n = x" "(x * n + y) mod n = y" if "y < n" for x y n :: nat
    using that by simp_all
  show "a div 4 < 64" using assms by (simp add: div_less_iff_less_mult)
  show "a mod 4 * 16 + b div 16 < 64" "b mod 16 * 4 + c div 64 < 64" "c mod 64 < 64"
    "a mod 4 * 16 < 64" "b mod 16 * 4 < 64"
    using b m by linarith+
  show "a div 4 * 4 + (a mod 4 * 16 + b div 16) div 16 = a"
    "(a mod 4 * 16 + b div 16) mod 16 * 16 + (b mod 16 * 4 + c div 64) div 4 = b"
    "(b mod 16 * 4 + c div 64) mod 4 * 64 + c mod 64 = c"
    using b by (simp_all only: d div_mult_mod_eq)
qed

lemma b64_quads_encode: "b64_quads (b64_encode bs) = Some bs"
proof (induction bs rule: b64_encode.induct)
  case (2 x)
  then show ?case
    using b64_bits [of "unat x" 0 0] byte_bound [of x] by (simp add: Let_def)
next
  case (3 x y)
  then show ?case
    using b64_bits [of "unat x" "unat y" 0] byte_bound [of x] byte_bound [of y]
    by (simp add: Let_def)
next
  case (4 x y z bs)
  then show ?case
    using b64_bits [of "unat x" "unat y" "unat z"] byte_bound [of x] byte_bound [of y]
      byte_bound [of z] by (simp add: Let_def)
qed simp

lemma b64_encode_plain: "c \<in> set (b64_encode bs) \<Longrightarrow> plain_char c"
proof (induction bs rule: b64_encode.induct)
  case (2 x)
  then show ?case using b64_bits [of "unat x" 0 0] byte_bound [of x]
    by (auto simp: Let_def b64_char_plain) (simp_all add: plain_char_def)
next
  case (3 x y)
  then show ?case using b64_bits [of "unat x" "unat y" 0] byte_bound [of x] byte_bound [of y]
    by (auto simp: Let_def b64_char_plain) (simp_all add: plain_char_def)
next
  case (4 x y z bs)
  then show ?case
    using b64_bits [of "unat x" "unat y" "unat z"] byte_bound [of x] byte_bound [of y]
      byte_bound [of z] by (auto simp: Let_def b64_char_plain)
qed simp

lemma b64_decode_encode: "b64_decode (b64_encode bs) = Some bs"
proof -
  have "filter (\<lambda>c. of_char c \<noteq> (10 :: nat) \<and> of_char c \<noteq> (13 :: nat)) (b64_encode bs) = b64_encode bs"
    by (rule filter_True) (use b64_encode_plain in \<open>force simp: plain_char_def\<close>)
  then show ?thesis by (simp add: b64_decode_def b64_quads_encode)
qed

lemma b64_encode_empty [simp]: "b64_encode bs = [] \<longleftrightarrow> bs = []"
  by (induction bs rule: b64_encode.induct) (auto simp: Let_def)

end
