(* ===== verification/Router_Poller.thy ===== *)
theory Router_Poller
  imports Router_Api Netip Base64 Awg_Transform
    "HOL-Library.Multiset" "HOL-Library.Char_ord" "HOL-Library.List_Lexorder"
begin

text \<open>
  Package \<open>router\<close>, files \<open>poller.go\<close>, the \<open>fetchAPI\<close> of \<open>api.go\<close> and \<open>keys.go\<close>: the poller
  reads the WireGuard interface and its peers from the router, derives a snapshot (the keys
  MAC1 is computed with, and in client mode the upstream) and keeps the last good one. The
  DNS resolver is the parameter \<open>lookup\<close> (\<open>net.DefaultResolver.LookupNetIP\<close>).
\<close>

section \<open>Data\<close>

record Upstream =
  up_PeerID :: string
  up_ServerPub :: bytes
  up_RemoteAddr :: addrport
  up_PSK :: bytes
  up_Comment :: string

record Snapshot =
  sn_ServerPub :: bytes
  sn_ServerPriv :: bytes
  sn_WGListenPort :: int
  sn_ClientPubs :: "bytes list"
  sn_Upstream :: "Upstream option"

record markedPeer =
  mp_id :: string
  mp_comment :: string
  mp_publicKey :: string
  mp_psk :: string
  mp_endpointAddr :: string
  mp_endpointPort :: int
  mp_disabled :: bool

definition zero32 :: bytes where "zero32 = replicate 32 0"

section \<open>Keys\<close>

definition parsePubKey :: "string \<Rightarrow> gerror + bytes" where
  "parsePubKey s =
     (let s = TrimSpace s in
      if s = [] then Inl (Msg ''empty key'')
      else case b64_decode s of
          None \<Rightarrow> Inl (Msg ''illegal base64 data'')
        | Some raw \<Rightarrow>
            if length raw \<noteq> 32
            then Inl (Msg (''expected 32 bytes, got '' @ Itoa (int (length raw))))
            else Inr raw)"

text \<open>The key of a call whose error is discarded: the zero key on an error.\<close>

definition key_or_zero :: "gerror + bytes \<Rightarrow> bytes" where
  "key_or_zero r = (case r of Inl _ \<Rightarrow> zero32 | Inr k \<Rightarrow> k)"

text \<open>\<open>GenerateKeypair\<close> on the 32 bytes \<open>rand.Read\<close> gives (\<open>None\<close> is its error);
  \<open>basepoint\<close> is \<open>curve25519.Basepoint\<close>.\<close>

definition clamp :: "bytes \<Rightarrow> bytes" where
  "clamp k =
     (let k = k[0 := k ! 0 AND 248];
          k = k[31 := k ! 31 AND 127]
      in k[31 := k ! 31 OR 64])"

definition basepoint :: bytes where "basepoint = 9 # replicate 31 0"

definition GenerateKeypair :: "xcrypto \<Rightarrow> bytes option \<Rightarrow> (gerror + string \<times> string)" where
  "GenerateKeypair cr rnd =
     (case rnd of
        None \<Rightarrow> Inl (Msg ''rand'')
      | Some r \<Rightarrow>
          (let k = clamp r in
           case x25519 cr k basepoint of
             None \<Rightarrow> Inl (Msg ''x25519'')
           | Some pub \<Rightarrow> Inr (b64_encode k, b64_encode pub)))"

section \<open>The upstream\<close>

text \<open>Go's \<open><\<close> on strings.\<close>

fun string_less :: "string \<Rightarrow> string \<Rightarrow> bool" where
  "string_less _ [] = False"
| "string_less [] (_ # _) = True"
| "string_less (c # cs) (d # ds) =
     (if c = d then string_less cs ds else (of_char c :: nat) < of_char d)"

fun pick_least :: "ipaddr \<Rightarrow> ipaddr list \<Rightarrow> ipaddr" where
  "pick_least p [] = p"
| "pick_least p (ip # ips) =
     pick_least (if string_less (addr_string ip) (addr_string p) then ip else p) ips"

definition uint16 :: "int \<Rightarrow> nat" where
  "uint16 n = nat (n mod 2 ^ 16)"

definition resolveAddrPort :: "(string \<Rightarrow> gerror + ipaddr list) \<Rightarrow> string \<Rightarrow> int \<Rightarrow> gerror + addrport" where
  "resolveAddrPort lookup host port =
     (case ParseAddr host of
        Some a \<Rightarrow> Inr \<lparr>ap_addr = a, ap_port = uint16 port\<rparr>
      | None \<Rightarrow>
          (case lookup host of
             Inl e \<Rightarrow> Inl e
           | Inr [] \<Rightarrow> Inl (Msg (''no addresses for '' @ host))
           | Inr (ip # ips) \<Rightarrow> Inr \<lparr>ap_addr = pick_least ip ips, ap_port = uint16 port\<rparr>))"

text \<open>A peer that is enabled and carries the marker.\<close>

definition is_marked :: "markedPeer \<Rightarrow> bool" where
  "is_marked m \<longleftrightarrow> \<not> mp_disabled m \<and> CutPrefix (TrimSpace (mp_comment m)) PeerMarker \<noteq> None"

definition pickUpstream :: "(string \<Rightarrow> gerror + ipaddr list) \<Rightarrow> markedPeer list \<Rightarrow> Upstream option" where
  "pickUpstream lookup peers =
     (case filter is_marked peers of
        [] \<Rightarrow> None
      | [m] \<Rightarrow>
          if mp_endpointAddr m = [] \<or> mp_endpointPort m = 0 then None
          else (case parsePubKey (mp_publicKey m) of
             Inl _ \<Rightarrow> None
           | Inr pub \<Rightarrow>
          (case resolveAddrPort lookup (mp_endpointAddr m) (mp_endpointPort m) of
             Inl _ \<Rightarrow> None
           | Inr a \<Rightarrow>
               Some \<lparr>up_PeerID = mp_id m, up_ServerPub = pub, up_RemoteAddr = a,
                 up_PSK = (if mp_psk m = [] then zero32 else key_or_zero (parsePubKey (mp_psk m))),
                 up_Comment = (case CutPrefix (TrimSpace (mp_comment m)) PeerMarker of
                     Some rest \<Rightarrow> TrimSpace rest | None \<Rightarrow> [])\<rparr>))
      | _ \<Rightarrow> None)"

section \<open>Polling\<close>

text \<open>The loop over the interfaces: public key, private key and listen port of the first
  one with the name.\<close>

fun find_iface :: "string \<Rightarrow> row list \<Rightarrow> (gerror + bytes \<times> bytes \<times> int) option" where
  "find_iface name [] = None"
| "find_iface name (it # its) =
     (if fld it ''name'' \<noteq> name then find_iface name its
      else Some (case parsePubKey (fld it ''public-key'') of
          Inl e \<Rightarrow> Inl (Wrap ''api interface key'' e)
        | Inr pub \<Rightarrow>
            Inr (pub,
              if fld it ''private-key'' = [] then zero32 else key_or_zero (parsePubKey (fld it ''private-key'')),
              if fld it ''listen-port'' = [] then 0 else fst (Atoi (fld it ''listen-port'')))))"

definition marked_of :: "row \<Rightarrow> markedPeer" where
  "marked_of r =
     \<lparr>mp_id = fld r ''.id'', mp_comment = fld r ''comment'', mp_publicKey = fld r ''public-key'',
      mp_psk = fld r ''preshared-key'', mp_endpointAddr = fld r ''endpoint-address'',
      mp_endpointPort = fst (Atoi (fld r ''endpoint-port'')), mp_disabled = (fld r ''disabled'' = ''true'')\<rparr>"

text \<open>The loop over the peers: in client mode it collects the peers of the interface, in
  server mode their keys, and stops at the first key that does not parse.\<close>

fun scan_peers :: "rconfig \<Rightarrow> row list \<Rightarrow> bytes list \<Rightarrow> markedPeer list \<Rightarrow> gerror + bytes list \<times> markedPeer list" where
  "scan_peers c [] pubs marked = Inr (pubs, marked)"
| "scan_peers c (r # rs) pubs marked =
     (if fld r ''interface'' \<noteq> rc_Iface c then scan_peers c rs pubs marked
      else if rc_Mode c = ModeClient then scan_peers c rs pubs (marked @ [marked_of r])
      else case parsePubKey (fld r ''public-key'') of
          Inl e \<Rightarrow> Inl (Wrap ''api peer key'' e)
        | Inr k \<Rightarrow> scan_peers c rs (pubs @ [k]) marked)"

definition fetchAPI ::
  "'s ros \<Rightarrow> (string \<Rightarrow> gerror + ipaddr list) \<Rightarrow> rconfig \<Rightarrow> 's \<Rightarrow> (gerror + Snapshot) \<times> 's" where
  "fetchAPI ros lookup c s =
     (case ros_print ros ''/interface/wireguard'' s of
        (Inl e, s) \<Rightarrow> (Inl (Wrap ''api interface'' e), s)
      | (Inr ifaces, s) \<Rightarrow>
     (case find_iface (rc_Iface c) ifaces of
        None \<Rightarrow> (Inl (Msg (''api: interface '' @ rc_Iface c @ '' not found'')), s)
      | Some (Inl e) \<Rightarrow> (Inl e, s)
      | Some (Inr (pub, priv, port)) \<Rightarrow>
     (case ros_print ros ''/interface/wireguard/peers'' s of
        (Inl e, s) \<Rightarrow> (Inl (Wrap ''api peers'' e), s)
      | (Inr peers, s) \<Rightarrow>
     (case scan_peers c peers [] [] of
        Inl e \<Rightarrow> (Inl e, s)
      | Inr (pubs, marked) \<Rightarrow>
          (Inr \<lparr>sn_ServerPub = pub, sn_ServerPriv = priv, sn_WGListenPort = port, sn_ClientPubs = pubs,
             sn_Upstream = (if rc_Mode c = ModeClient then pickUpstream lookup marked else None)\<rparr>, s)))))"

record Poller =
  po_cfg :: rconfig
  po_cur :: "Snapshot option"

text \<open>\<open>tick\<close>: \<open>onTick\<close> is the hook, a function of the snapshot on its own state and the
  router's (the identity where Go has a nil hook).\<close>

definition tick ::
  "'s ros \<Rightarrow> (string \<Rightarrow> gerror + ipaddr list) \<Rightarrow> (Snapshot \<Rightarrow> 'h \<Rightarrow> 's \<Rightarrow> 'h \<times> 's) \<Rightarrow>
   Poller \<Rightarrow> 'h \<Rightarrow> 's \<Rightarrow> Poller \<times> 'h \<times> 's" where
  "tick ros lookup onTick p h s =
     (case fetchAPI ros lookup (po_cfg p) s of
        (Inl e, s) \<Rightarrow> (p, h, s)
      | (Inr snap, s) \<Rightarrow> (case onTick snap h s of (h, s) \<Rightarrow> (p\<lparr>po_cur := Some snap\<rparr>, h, s)))"

section \<open>Lemmas\<close>

lemma parsePubKey_encode: "length k = 32 \<Longrightarrow> parsePubKey (b64_encode k) = Inr k"
  using TrimSpace_plain [of "b64_encode k"] b64_encode_plain
  by (auto simp: parsePubKey_def b64_decode_encode)

lemma parsePubKey_length: "parsePubKey s = Inr k \<Longrightarrow> length k = 32"
  by (auto simp: parsePubKey_def Let_def split: option.splits if_splits)

lemma scan_peers_server:
  assumes "rc_Mode c \<noteq> ModeClient"
    and "\<forall>r \<in> set rows. fld r ''interface'' = rc_Iface c \<longrightarrow> parsePubKey (fld r ''public-key'') = Inr (key r)"
  shows "scan_peers c rows pubs marked =
    Inr (pubs @ map key (filter (\<lambda>r. fld r ''interface'' = rc_Iface c) rows), marked)"
  using assms(2) by (induction rows arbitrary: pubs) (simp_all add: assms(1))

lemma scan_peers_client:
  assumes "rc_Mode c = ModeClient"
  shows "scan_peers c rows pubs marked =
    Inr (pubs, marked @ map marked_of (filter (\<lambda>r. fld r ''interface'' = rc_Iface c) rows))"
  by (induction rows arbitrary: marked) (simp_all add: assms)

text \<open>A key of one peer that does not parse fails the whole poll.\<close>

lemma scan_peers_bad_key:
  assumes "rc_Mode c \<noteq> ModeClient" "r \<in> set rows" "fld r ''interface'' = rc_Iface c"
    and "parsePubKey (fld r ''public-key'') = Inl e"
  shows "\<exists>e'. scan_peers c rows pubs marked = Inl e'"
  using assms(2) by (induction rows arbitrary: pubs) (auto simp: assms split: sum.split)

section \<open>Properties\<close>

lemma string_less_iff: "string_less s t \<longleftrightarrow> s < t"
  by (induction s t rule: string_less.induct) (auto simp: less_char_def)

lemma pick_least:
  "pick_least p ips \<in> set (p # ips) \<and>
   (\<forall>ip \<in> set (p # ips). addr_string (pick_least p ips) \<le> addr_string ip)"
proof (induction ips arbitrary: p)
  case (Cons ip ips)
  let ?q = "if string_less (addr_string ip) (addr_string p) then ip else p"
  have "addr_string ?q \<le> addr_string ip" "addr_string ?q \<le> addr_string p" "?q \<in> {p, ip}"
    by (auto simp: string_less_iff)
  then show ?case using Cons.IH [of ?q] by (auto intro: order_trans)
qed simp

text \<open>
  A DNS name resolves to one address however the resolver orders its answer: any two
  orders of the same set of addresses give the address with the least textual form.
\<close>

lemma resolve_order_independent:
  assumes "ParseAddr host = None" "lookup host = Inr ips" "lookup' host = Inr ips'"
    and "set ips = set ips'" "ips \<noteq> []"
  shows "\<exists>a a'. resolveAddrPort lookup host port = Inr a \<and> resolveAddrPort lookup' host port = Inr a' \<and>
    ap_addr a \<in> set ips \<and> addr_string (ap_addr a) = addr_string (ap_addr a') \<and> ap_port a = ap_port a' \<and>
    (\<forall>ip \<in> set ips. addr_string (ap_addr a) \<le> addr_string ip)"
proof -
  obtain i is0 where i: "ips = i # is0" using assms(5) by (cases ips) auto
  obtain j js where j: "ips' = j # js" using assms(4,5) by (cases ips') auto
  have "addr_string (pick_least i is0) = addr_string (pick_least j js)"
  proof (rule antisym)
    show "addr_string (pick_least i is0) \<le> addr_string (pick_least j js)"
      using pick_least [of i is0] pick_least [of j js] assms(4) unfolding i j by blast
    show "addr_string (pick_least j js) \<le> addr_string (pick_least i is0)"
      using pick_least [of i is0] pick_least [of j js] assms(4) unfolding i j by blast
  qed
  with pick_least [of i is0] show ?thesis
    by (simp add: resolveAddrPort_def assms i j)
qed


definition demo_key :: bytes where "demo_key = replicate 32 7"

definition demo_peer :: markedPeer where
  "demo_peer = \<lparr>mp_id = ''*1'', mp_comment = PeerMarker, mp_publicKey = b64_encode demo_key, mp_psk = [],
     mp_endpointAddr = ''h'', mp_endpointPort = 51820, mp_disabled = False\<rparr>"

lemma trim_marker: "TrimSpace PeerMarker = PeerMarker"
  by (rule TrimSpace_plain) (auto simp: PeerMarker_def plain_char_def)

lemma demo_host: "ParseAddr ''h'' = None"
  by code_simp

lemma demo_peer_marked: "is_marked demo_peer"
  by (simp add: is_marked_def demo_peer_def trim_marker CutPrefix_def has_prefix_def)


text \<open>
  C29. In server mode the snapshot is the router's state: when the interface is listed with a
  key and every peer of it with a key, a poll succeeds without changing the router, and the
  snapshot holds the interface's key and the keys of exactly its peers, in their order.
\<close>

theorem fetch_server_snapshot:
  assumes "table_router ros tbl" "rc_Mode c \<noteq> ModeClient"
    and "tbl s ''/interface/wireguard'' = pre @ it # post" "\<forall>r \<in> set pre. fld r ''name'' \<noteq> rc_Iface c"
    and "fld it ''name'' = rc_Iface c" "fld it ''public-key'' = b64_encode pub" "length pub = 32"
    and "\<forall>r \<in> set (tbl s ''/interface/wireguard/peers''). fld r ''interface'' = rc_Iface c \<longrightarrow>
      fld r ''public-key'' = b64_encode (key r) \<and> length (key r) = 32"
  shows "\<exists>snap s'. fetchAPI ros lookup c s = (Inr snap, s') \<and> tbl s' = tbl s \<and>
    sn_ServerPub snap = pub \<and> sn_Upstream snap = None \<and>
    sn_ClientPubs snap =
      map key (filter (\<lambda>r. fld r ''interface'' = rc_Iface c) (tbl s ''/interface/wireguard/peers''))"
proof -
  obtain s1 where s1: "ros_print ros ''/interface/wireguard'' s = (Inr (tbl s ''/interface/wireguard''), s1)"
    "tbl s1 = tbl s" using table_printE [OF assms(1)] .
  obtain s2 where s2: "ros_print ros ''/interface/wireguard/peers'' s1 =
      (Inr (tbl s1 ''/interface/wireguard/peers''), s2)" "tbl s2 = tbl s1"
    using table_printE [OF assms(1)] .
  have iface: "\<exists>priv port. find_iface (rc_Iface c) (pre @ it # post) = Some (Inr (pub, priv, port))"
    using assms(4-7) by (induction pre) (simp_all add: parsePubKey_encode)
  have "scan_peers c (tbl s ''/interface/wireguard/peers'') [] [] =
    Inr (map key (filter (\<lambda>r. fld r ''interface'' = rc_Iface c) (tbl s ''/interface/wireguard/peers'')), [])"
    using assms(8) parsePubKey_encode by (subst scan_peers_server [OF assms(2), of _ key]) auto
  with iface s1 s2 show ?thesis
    by (auto simp: fetchAPI_def assms(2,3))
qed

definition demo_poll_cfg :: rconfig where
  "demo_poll_cfg = \<lparr>rc_Address = ''r'', rc_APIPort = 8728, rc_APITLS = False, rc_User = ''u'',
     rc_Password = ''p'', rc_Iface = ''wg1'', rc_Interval = 1, rc_Mode = ModeServer\<rparr>"

definition demo_wg :: "string \<Rightarrow> row list" where
  "demo_wg p =
     (if p = ''/interface/wireguard''
      then [[(''name'', ''wg0'')], [(''name'', ''wg1''), (''public-key'', b64_encode demo_key)]]
      else if p = ''/interface/wireguard/peers''
      then [[(''interface'', ''wg0''), (''public-key'', ''bad'')],
            [(''interface'', ''wg1''), (''public-key'', b64_encode demo_key)]]
      else [])"

theorem fetch_server_snapshot_witness:
  "\<exists>snap s'. fetchAPI mem_ros (\<lambda>_. Inr []) demo_poll_cfg demo_wg = (Inr snap, s') \<and>
     sn_ServerPub snap = demo_key \<and> length (sn_ClientPubs snap) = 1"
proof -
  have iface: "demo_wg ''/interface/wireguard'' =
      [[(''name'', ''wg0'')]] @ [(''name'', ''wg1''), (''public-key'', b64_encode demo_key)] # []"
    by (simp add: demo_wg_def)
  have peers: "demo_wg ''/interface/wireguard/peers'' =
      [[(''interface'', ''wg0''), (''public-key'', ''bad'')],
       [(''interface'', ''wg1''), (''public-key'', b64_encode demo_key)]]"
    by (simp add: demo_wg_def)
  from fetch_server_snapshot [of mem_ros "\<lambda>s. s" demo_poll_cfg demo_wg _ _ _ demo_key "\<lambda>_. demo_key" "\<lambda>_. Inr []",
      OF mem_router _ iface]
  show ?thesis
    by (auto simp: peers demo_poll_cfg_def ModeServer_def ModeClient_def fld_def demo_key_def)
qed

text \<open>
  C30. A generated key pair is well formed: both halves decode (\<open>parsePubKey\<close>), the private
  key is clamped as Curve25519 demands, and the public key is the one it belongs to.
\<close>

theorem GenerateKeypair_wellformed:
  assumes "GenerateKeypair cr (Some r) = Inr (priv, pub)" "length r = 32"
    and "\<And>k p q. x25519 cr k p = Some q \<Longrightarrow> length q = 32"
  shows "\<exists>k q. parsePubKey priv = Inr k \<and> parsePubKey pub = Inr q \<and> x25519 cr k basepoint = Some q \<and>
    k ! 0 AND 7 = 0 \<and> k ! 31 AND 192 = 64 \<and> (\<forall>i. 0 < i \<and> i < 31 \<longrightarrow> k ! i = r ! i)"
proof -
  let ?k = "clamp r"
  from assms(1) obtain q where q: "x25519 cr ?k basepoint = Some q" "priv = b64_encode ?k" "pub = b64_encode q"
    by (auto simp: GenerateKeypair_def Let_def split: option.splits)
  have "length ?k = 32" using assms(2) by (simp add: clamp_def Let_def)
  moreover have k: "?k ! 0 = r ! 0 AND 248" "?k ! 31 = (r ! 31 AND 127) OR 64"
      "\<forall>i. 0 < i \<and> i < 31 \<longrightarrow> ?k ! i = r ! i"
    using assms(2) by (simp_all add: clamp_def Let_def)
  moreover have "?k ! 0 AND 7 = 0" "?k ! 31 AND 192 = 64"
    by (simp_all add: k and.assoc bit.conj_disj_distrib2)
  ultimately show ?thesis using q assms(3) [OF q(1)] by (auto simp: parsePubKey_encode)
qed

theorem GenerateKeypair_wellformed_witness:
  "\<exists>priv pub k. GenerateKeypair (\<lparr>blake2s_256 = \<lambda>m. [], blake2s_mac128 = \<lambda>k m. [],
      x25519 = \<lambda>k p. Some demo_key, aead_open = \<lambda>k n c a. None\<rparr>) (Some (replicate 32 255)) = Inr (priv, pub) \<and>
    parsePubKey priv = Inr k \<and> k ! 31 AND 192 = 64"
proof -
  let ?cr = "\<lparr>blake2s_256 = \<lambda>m. [], blake2s_mac128 = \<lambda>k m. [], x25519 = \<lambda>k p. Some demo_key,
    aead_open = \<lambda>k n c a. None\<rparr>"
  obtain priv pub where kp: "GenerateKeypair ?cr (Some (replicate 32 255)) = Inr (priv, pub)"
    by (simp add: GenerateKeypair_def)
  from GenerateKeypair_wellformed [OF this] show ?thesis
    using kp by (auto simp: demo_key_def)
qed

end
