(* ===== verification/Config.thy ===== *)
theory Config
  imports Router_Api Netip Awg_Transform
begin

text \<open>
  Package \<open>config\<close>: the settings as the JSON file holds them, the working configuration
  derived from them with defaults, validation by sections, and reading and writing the file.
  A JSON document is a tree; its text form (\<open>encoding/json\<close>) is the parameter \<open>jsonlib\<close>.
\<close>

section \<open>Data\<close>

definition defMode :: string where "defMode = ModeServer"
definition defListen :: string where "defListen = '':51820''"
definition defWebListen :: string where "defWebListen = '':8088''"
definition defUser :: string where "defUser = ''admin''"
definition defJc :: int where "defJc = 4"
definition defJmin :: int where "defJmin = 40"
definition defJmax :: int where "defJmax = 70"
definition defTTL :: int where "defTTL = 180"
definition defPoll :: int where "defPoll = 30"
definition defLog :: string where "defLog = ''info''"
definition defAPIPort :: int where "defAPIPort = 8728"

record RouterConn =
  rn_Address :: string
  rn_APIPort :: int
  rn_APITLS :: bool
  rn_User :: string
  rn_Password :: string
  rn_WGIface :: string

record Config =
  c_Mode :: string
  c_WebListen :: string
  c_LogLevel :: int
  c_Listen :: string
  c_Remote :: string
  c_PublicEndpoint :: string
  c_ContainerAddr :: string
  c_Divert :: bool
  c_Masquerade :: bool
  c_Jc :: int
  c_Jmin :: int
  c_Jmax :: int
  c_S1 :: int
  c_S2 :: int
  c_H1 :: u32
  c_H2 :: u32
  c_H3 :: u32
  c_H4 :: u32
  c_SessionTTL :: int       \<comment> \<open>\<open>time.Duration\<close>, nanoseconds\<close>
  c_PollInterval :: int
  c_Router :: RouterConn
  c_ContainerAddr6 :: string

record Obfuscation =
  o_Jc :: int
  o_Jmin :: int
  o_Jmax :: int
  o_S1 :: int
  o_S2 :: int
  o_H1 :: u32
  o_H2 :: u32
  o_H3 :: u32
  o_H4 :: u32

record RouterSettings =
  rs_Address :: string
  rs_APIPort :: int
  rs_APITLS :: bool
  rs_User :: string
  rs_Password :: string
  rs_WGIface :: string

record ServerSettings =
  sv_Listen :: string
  sv_RemoteAddr :: string
  sv_RemotePort :: int
  sv_PublicEndpoint :: string
  sv_ClientDNS :: string
  sv_ContainerAddr :: string
  sv_Divert :: bool
  sv_Masquerade :: bool
  sv_SessionTTLSec :: int
  sv_PollIntervalSec :: int
  sv_Obfuscation :: Obfuscation
  sv_Router :: RouterSettings
  sv_ContainerAddr6 :: string

record ClientSettings =
  cl_Listen :: string
  cl_ContainerAddr :: string
  cl_SessionTTLSec :: int
  cl_PollIntervalSec :: int
  cl_Obfuscation :: Obfuscation
  cl_Router :: RouterSettings
  cl_Divert :: bool
  cl_ContainerAddr6 :: string

record Settings =
  st_Mode :: string
  st_WebListen :: string
  st_LogLevel :: string
  st_Server :: ServerSettings
  st_Client :: ClientSettings

text \<open>The zero values of Go.\<close>

definition zeroObfuscation :: Obfuscation where
  "zeroObfuscation = \<lparr>o_Jc = 0, o_Jmin = 0, o_Jmax = 0, o_S1 = 0, o_S2 = 0,
     o_H1 = 0, o_H2 = 0, o_H3 = 0, o_H4 = 0\<rparr>"

definition zeroRouter :: RouterSettings where
  "zeroRouter = \<lparr>rs_Address = [], rs_APIPort = 0, rs_APITLS = False, rs_User = [],
     rs_Password = [], rs_WGIface = []\<rparr>"

definition zeroServer :: ServerSettings where
  "zeroServer = \<lparr>sv_Listen = [], sv_RemoteAddr = [], sv_RemotePort = 0, sv_PublicEndpoint = [],
     sv_ClientDNS = [], sv_ContainerAddr = [], sv_Divert = False, sv_Masquerade = False,
     sv_SessionTTLSec = 0, sv_PollIntervalSec = 0, sv_Obfuscation = zeroObfuscation,
     sv_Router = zeroRouter, sv_ContainerAddr6 = []\<rparr>"

definition zeroClient :: ClientSettings where
  "zeroClient = \<lparr>cl_Listen = [], cl_ContainerAddr = [], cl_SessionTTLSec = 0, cl_PollIntervalSec = 0,
     cl_Obfuscation = zeroObfuscation, cl_Router = zeroRouter, cl_Divert = False, cl_ContainerAddr6 = []\<rparr>"

definition zeroSettings :: Settings where
  "zeroSettings = \<lparr>st_Mode = [], st_WebListen = [], st_LogLevel = [], st_Server = zeroServer,
     st_Client = zeroClient\<rparr>"

section \<open>Defaults\<close>

text \<open>\<open>cmp.Or\<close> of two values.\<close>

definition or_str :: "string \<Rightarrow> string \<Rightarrow> string" where
  "or_str s d = (if s = [] then d else s)"

definition or_int :: "int \<Rightarrow> int \<Rightarrow> int" where
  "or_int n d = (if n = 0 then d else n)"

definition defaultObfuscation :: "Obfuscation \<Rightarrow> Obfuscation" where
  "defaultObfuscation ob =
     (if o_Jc ob \<noteq> 0 \<or> o_Jmin ob \<noteq> 0 \<or> o_Jmax ob \<noteq> 0 \<or> o_S1 ob \<noteq> 0 \<or> o_S2 ob \<noteq> 0 \<or>
         o_H1 ob \<noteq> 0 \<or> o_H2 ob \<noteq> 0 \<or> o_H3 ob \<noteq> 0 \<or> o_H4 ob \<noteq> 0
      then ob
      else \<lparr>o_Jc = defJc, o_Jmin = defJmin, o_Jmax = defJmax, o_S1 = 0, o_S2 = 0,
            o_H1 = 1, o_H2 = 2, o_H3 = 3, o_H4 = 4\<rparr>)"

definition defaultRouter :: "RouterSettings \<Rightarrow> RouterSettings" where
  "defaultRouter r = r\<lparr>rs_User := or_str (rs_User r) defUser, rs_APIPort := or_int (rs_APIPort r) defAPIPort\<rparr>"

definition withDefaults :: "Settings \<Rightarrow> Settings" where
  "withDefaults s =
     (let sv = st_Server s; cl = st_Client s in
      s\<lparr>st_Mode := or_str (st_Mode s) defMode,
        st_WebListen := or_str (st_WebListen s) defWebListen,
        st_LogLevel := or_str (st_LogLevel s) defLog,
        st_Server := sv\<lparr>sv_Listen := or_str (sv_Listen sv) defListen,
          sv_SessionTTLSec := or_int (sv_SessionTTLSec sv) defTTL,
          sv_PollIntervalSec := or_int (sv_PollIntervalSec sv) defPoll,
          sv_Obfuscation := defaultObfuscation (sv_Obfuscation sv),
          sv_Router := defaultRouter (sv_Router sv)\<rparr>,
        st_Client := cl\<lparr>cl_Listen := or_str (cl_Listen cl) defListen,
          cl_SessionTTLSec := or_int (cl_SessionTTLSec cl) defTTL,
          cl_PollIntervalSec := or_int (cl_PollIntervalSec cl) defPoll,
          cl_Obfuscation := defaultObfuscation (cl_Obfuscation cl),
          cl_Router := defaultRouter (cl_Router cl)\<rparr>\<rparr>)"

section \<open>The working configuration\<close>

text \<open>\<open>slog\<close>'s levels: Debug -4, Info 0, Warn 4, Error 8.\<close>

definition parseLevel :: "string \<Rightarrow> int" where
  "parseLevel s =
     (if s = ''debug'' then -4 else if s = ''warn'' then 4 else if s = ''error'' then 8
      else if s = ''none'' then 8 + 4 else 0)"

definition routerConn :: "RouterSettings \<Rightarrow> RouterConn" where
  "routerConn r = \<lparr>rn_Address = rs_Address r, rn_APIPort = rs_APIPort r, rn_APITLS = rs_APITLS r,
     rn_User = rs_User r, rn_Password = rs_Password r, rn_WGIface = rs_WGIface r\<rparr>"

text \<open>\<open>time.Duration(n) * time.Second\<close>, with Go's wrap-around.\<close>

definition seconds :: "int \<Rightarrow> int" where
  "seconds n = wrap64 (n * 1000000000)"

definition fillObfuscation :: "Obfuscation \<Rightarrow> Config \<Rightarrow> Config" where
  "fillObfuscation ob c = c\<lparr>c_Jc := o_Jc ob, c_Jmin := o_Jmin ob, c_Jmax := o_Jmax ob,
     c_S1 := o_S1 ob, c_S2 := o_S2 ob, c_H1 := o_H1 ob, c_H2 := o_H2 ob, c_H3 := o_H3 ob, c_H4 := o_H4 ob\<rparr>"

definition fillServer :: "Config \<Rightarrow> ServerSettings \<Rightarrow> Config" where
  "fillServer c sv =
     (fillObfuscation (sv_Obfuscation sv) c)\<lparr>c_Listen := sv_Listen sv,
        c_Remote := (if sv_RemoteAddr sv \<noteq> [] \<and> sv_RemotePort sv \<noteq> 0
          then JoinHostPort (sv_RemoteAddr sv) (Itoa (sv_RemotePort sv)) else []),
        c_PublicEndpoint := sv_PublicEndpoint sv,
        c_ContainerAddr := sv_ContainerAddr sv,
        c_Divert := sv_Divert sv,
        c_Masquerade := sv_Masquerade sv,
        c_SessionTTL := seconds (sv_SessionTTLSec sv),
        c_PollInterval := seconds (sv_PollIntervalSec sv),
        c_Router := routerConn (sv_Router sv),
        c_ContainerAddr6 := sv_ContainerAddr6 sv\<rparr>"

definition fillClient :: "Config \<Rightarrow> ClientSettings \<Rightarrow> Config" where
  "fillClient c cl =
     (fillObfuscation (cl_Obfuscation cl) c)\<lparr>c_Listen := cl_Listen cl,
        c_ContainerAddr := cl_ContainerAddr cl,
        c_Divert := cl_Divert cl,
        c_SessionTTL := seconds (cl_SessionTTLSec cl),
        c_PollInterval := seconds (cl_PollIntervalSec cl),
        c_Router := routerConn (cl_Router cl),
        c_ContainerAddr6 := cl_ContainerAddr6 cl\<rparr>"

definition newConfig :: "string \<Rightarrow> string \<Rightarrow> int \<Rightarrow> Config" where
  "newConfig m web lvl = \<lparr>c_Mode = m, c_WebListen = web, c_LogLevel = lvl, c_Listen = [], c_Remote = [],
     c_PublicEndpoint = [], c_ContainerAddr = [], c_Divert = False, c_Masquerade = False,
     c_Jc = 0, c_Jmin = 0, c_Jmax = 0, c_S1 = 0, c_S2 = 0, c_H1 = 0, c_H2 = 0, c_H3 = 0, c_H4 = 0,
     c_SessionTTL = 0, c_PollInterval = 0,
     c_Router = \<lparr>rn_Address = [], rn_APIPort = 0, rn_APITLS = False, rn_User = [], rn_Password = [],
       rn_WGIface = []\<rparr>, c_ContainerAddr6 = []\<rparr>"

definition ToConfig :: "Settings \<Rightarrow> Config" where
  "ToConfig s =
     (let s = withDefaults s;
          c = newConfig (st_Mode s) (st_WebListen s) (parseLevel (st_LogLevel s))
      in if st_Mode s = ModeClient then fillClient c (st_Client s) else fillServer c (st_Server s))"

section \<open>Validation\<close>

definition validateRouter :: "Config \<Rightarrow> gerror option" where
  "validateRouter c =
     (if rn_Address (c_Router c) = [] then Some (Msg ''router.address is required'')
      else if rn_Password (c_Router c) = [] then Some (Msg ''router.password is required'')
      else None)"

text \<open>The checks behind the mode's own.\<close>

definition validateCommon :: "Config \<Rightarrow> gerror option" where
  "validateCommon c =
     (if c_Jmin c > c_Jmax c
      then Some (Msg (''jmin('' @ Itoa (c_Jmin c) @ '') > jmax('' @ Itoa (c_Jmax c) @ '')''))
      else if c_ContainerAddr6 c \<noteq> [] \<and>
          (case ParseAddr (c_ContainerAddr6 c) of None \<Rightarrow> True | Some a \<Rightarrow> \<not> Is6 a \<or> Is4In6 a)
      then Some (Msg (''container_addr6 must be an IPv6 address: '' @ c_ContainerAddr6 c))
      else None)"

definition validateService :: "Config \<Rightarrow> gerror option" where
  "validateService c =
     (if rn_WGIface (c_Router c) = [] then Some (Msg ''router.wg_iface is required'')
      else if c_Mode c = ModeServer then
        (if c_Remote c = [] then Some (Msg ''server.remote_addr/port are required'')
         else if c_Divert c \<and> c_ContainerAddr c = []
         then Some (Msg ''server.container_addr is required when divert is on'')
         else validateCommon c)
      else if c_Mode c = ModeClient then
        (if c_ContainerAddr c = [] then Some (Msg ''client.container_addr is required'')
         else validateCommon c)
      else Some (Msg (''unsupported mode '' @ c_Mode c)))"

definition validate :: "Config \<Rightarrow> gerror option" where
  "validate c = (case validateRouter c of Some e \<Rightarrow> Some e | None \<Rightarrow> validateService c)"

definition ActiveRouter :: "Settings \<Rightarrow> RouterSettings" where
  "ActiveRouter s = (if st_Mode s = ModeClient then cl_Router (st_Client s) else sv_Router (st_Server s))"

section \<open>JSON\<close>

text \<open>A JSON value; a number that is not an integer literal is \<open>JFrac\<close>.\<close>

datatype json =
    JNull
  | JBool bool
  | JNum int
  | JFrac string
  | JStr string
  | JArr "json list"
  | JObj "(string \<times> json) list"

text \<open>Decoding into a field: the field's setter applied to the value, \<open>null\<close> leaves the field
  alone, any other mismatch is the error of \<open>Unmarshal\<close>.\<close>

definition set_str :: "((string \<Rightarrow> string) \<Rightarrow> 'a \<Rightarrow> 'a) \<Rightarrow> json \<Rightarrow> 'a \<Rightarrow> 'a option" where
  "set_str upd j r = (case j of JStr v \<Rightarrow> Some (upd (\<lambda>_. v) r) | JNull \<Rightarrow> Some r | _ \<Rightarrow> None)"

definition set_bool :: "((bool \<Rightarrow> bool) \<Rightarrow> 'a \<Rightarrow> 'a) \<Rightarrow> json \<Rightarrow> 'a \<Rightarrow> 'a option" where
  "set_bool upd j r = (case j of JBool v \<Rightarrow> Some (upd (\<lambda>_. v) r) | JNull \<Rightarrow> Some r | _ \<Rightarrow> None)"

definition int64_ok :: "int \<Rightarrow> bool" where
  "int64_ok n \<longleftrightarrow> - (2 ^ 63) \<le> n \<and> n < 2 ^ 63"

definition set_int :: "((int \<Rightarrow> int) \<Rightarrow> 'a \<Rightarrow> 'a) \<Rightarrow> json \<Rightarrow> 'a \<Rightarrow> 'a option" where
  "set_int upd j r = (case j of JNum v \<Rightarrow> if int64_ok v then Some (upd (\<lambda>_. v) r) else None
     | JNull \<Rightarrow> Some r | _ \<Rightarrow> None)"

definition set_u32 :: "((u32 \<Rightarrow> u32) \<Rightarrow> 'a \<Rightarrow> 'a) \<Rightarrow> json \<Rightarrow> 'a \<Rightarrow> 'a option" where
  "set_u32 upd j r = (case j of JNum v \<Rightarrow> if 0 \<le> v \<and> v < 2 ^ 32 then Some (upd (\<lambda>_. word_of_int v) r) else None
     | JNull \<Rightarrow> Some r | _ \<Rightarrow> None)"

text \<open>Keys match exactly or, failing that, without regard to case: \<open>encoding/json\<close> folds the
  ASCII letters and the two other characters (U+017F and U+212A) that fold to one.\<close>

fun fold_name :: "nat list \<Rightarrow> nat list" where
  "fold_name [] = []"
| "fold_name (c # r) =
     (if c = 0xC5 \<and> take 1 r = [0xBF] then 83 # fold_name (drop 1 r)
      else if c = 0xE2 \<and> take 2 r = [0x84, 0xAA] then 75 # fold_name (drop 2 r)
      else (if 97 \<le> c \<and> c \<le> 122 then c - 32 else c) # fold_name r)"

definition fold_key :: "string \<Rightarrow> nat list" where
  "fold_key k = fold_name (map of_char k)"

definition field_of :: "(string \<times> 'f) list \<Rightarrow> string \<Rightarrow> 'f option" where
  "field_of fs k =
     (case map_of fs k of Some f \<Rightarrow> Some f
      | None \<Rightarrow> map_option snd (find (\<lambda>f. fold_key (fst f) = fold_key k) fs))"

fun dec_fields :: "(string \<times> (json \<Rightarrow> 'a \<Rightarrow> 'a option)) list \<Rightarrow> (string \<times> json) list \<Rightarrow> 'a \<Rightarrow> 'a option" where
  "dec_fields fs [] r = Some r"
| "dec_fields fs ((k, j) # kvs) r =
     (case field_of fs k of
        None \<Rightarrow> dec_fields fs kvs r
      | Some f \<Rightarrow> (case f j r of None \<Rightarrow> None | Some r \<Rightarrow> dec_fields fs kvs r))"

definition dec_struct :: "(string \<times> (json \<Rightarrow> 'a \<Rightarrow> 'a option)) list \<Rightarrow> json \<Rightarrow> 'a \<Rightarrow> 'a option" where
  "dec_struct fs j r = (case j of JObj kvs \<Rightarrow> dec_fields fs kvs r | JNull \<Rightarrow> Some r | _ \<Rightarrow> None)"

text \<open>A nested struct is decoded onto the present value of the field.\<close>

definition set_struct ::
  "(json \<Rightarrow> 'b \<Rightarrow> 'b option) \<Rightarrow> ('a \<Rightarrow> 'b) \<Rightarrow> (('b \<Rightarrow> 'b) \<Rightarrow> 'a \<Rightarrow> 'a) \<Rightarrow> json \<Rightarrow> 'a \<Rightarrow> 'a option" where
  "set_struct dec get upd j r = map_option (\<lambda>v. upd (\<lambda>_. v) r) (dec j (get r))"

text \<open>Encoding: \<open>omitzero\<close> drops a field whose value is zero.\<close>

definition omit_str :: "string \<Rightarrow> string \<Rightarrow> (string \<times> json) list" where
  "omit_str k v = (if v = [] then [] else [(k, JStr v)])"

definition omit_int :: "string \<Rightarrow> int \<Rightarrow> (string \<times> json) list" where
  "omit_int k v = (if v = 0 then [] else [(k, JNum v)])"

definition obf_json :: "Obfuscation \<Rightarrow> json" where
  "obf_json x = JObj
     [(''jc'', JNum (o_Jc x)), (''jmin'', JNum (o_Jmin x)), (''jmax'', JNum (o_Jmax x)),
      (''s1'', JNum (o_S1 x)), (''s2'', JNum (o_S2 x)), (''h1'', JNum (uint (o_H1 x))),
      (''h2'', JNum (uint (o_H2 x))), (''h3'', JNum (uint (o_H3 x))), (''h4'', JNum (uint (o_H4 x)))]"

definition obf_fields :: "(string \<times> (json \<Rightarrow> Obfuscation \<Rightarrow> Obfuscation option)) list" where
  "obf_fields =
     [(''jc'', set_int o_Jc_update), (''jmin'', set_int o_Jmin_update), (''jmax'', set_int o_Jmax_update),
      (''s1'', set_int o_S1_update), (''s2'', set_int o_S2_update), (''h1'', set_u32 o_H1_update),
      (''h2'', set_u32 o_H2_update), (''h3'', set_u32 o_H3_update), (''h4'', set_u32 o_H4_update)]"

definition router_json :: "RouterSettings \<Rightarrow> json" where
  "router_json x = JObj
     ((''address'', JStr (rs_Address x)) # omit_int ''api_port'' (rs_APIPort x) @
      (''api_tls'', JBool (rs_APITLS x)) # omit_str ''user'' (rs_User x) @
      omit_str ''password'' (rs_Password x) @ [(''wg_iface'', JStr (rs_WGIface x))])"

definition router_fields :: "(string \<times> (json \<Rightarrow> RouterSettings \<Rightarrow> RouterSettings option)) list" where
  "router_fields =
     [(''address'', set_str rs_Address_update), (''api_port'', set_int rs_APIPort_update),
      (''api_tls'', set_bool rs_APITLS_update), (''user'', set_str rs_User_update),
      (''password'', set_str rs_Password_update), (''wg_iface'', set_str rs_WGIface_update)]"

definition server_json :: "ServerSettings \<Rightarrow> json" where
  "server_json x = JObj
     (omit_str ''listen'' (sv_Listen x) @ (''remote_addr'', JStr (sv_RemoteAddr x)) #
      omit_int ''remote_port'' (sv_RemotePort x) @ omit_str ''public_endpoint'' (sv_PublicEndpoint x) @
      omit_str ''client_dns'' (sv_ClientDNS x) @ omit_str ''container_addr'' (sv_ContainerAddr x) @
      (''divert'', JBool (sv_Divert x)) # (''masquerade'', JBool (sv_Masquerade x)) #
      omit_int ''session_ttl_sec'' (sv_SessionTTLSec x) @
      omit_int ''poll_interval_sec'' (sv_PollIntervalSec x) @
      (''obfuscation'', obf_json (sv_Obfuscation x)) # (''router'', router_json (sv_Router x)) #
      omit_str ''container_addr6'' (sv_ContainerAddr6 x))"

definition server_fields :: "(string \<times> (json \<Rightarrow> ServerSettings \<Rightarrow> ServerSettings option)) list" where
  "server_fields =
     [(''listen'', set_str sv_Listen_update), (''remote_addr'', set_str sv_RemoteAddr_update),
      (''remote_port'', set_int sv_RemotePort_update), (''public_endpoint'', set_str sv_PublicEndpoint_update),
      (''client_dns'', set_str sv_ClientDNS_update), (''container_addr'', set_str sv_ContainerAddr_update),
      (''divert'', set_bool sv_Divert_update), (''masquerade'', set_bool sv_Masquerade_update),
      (''session_ttl_sec'', set_int sv_SessionTTLSec_update),
      (''poll_interval_sec'', set_int sv_PollIntervalSec_update),
      (''obfuscation'', set_struct (dec_struct obf_fields) sv_Obfuscation sv_Obfuscation_update),
      (''router'', set_struct (dec_struct router_fields) sv_Router sv_Router_update),
      (''container_addr6'', set_str sv_ContainerAddr6_update)]"

definition client_json :: "ClientSettings \<Rightarrow> json" where
  "client_json x = JObj
     (omit_str ''listen'' (cl_Listen x) @ omit_str ''container_addr'' (cl_ContainerAddr x) @
      omit_int ''session_ttl_sec'' (cl_SessionTTLSec x) @
      omit_int ''poll_interval_sec'' (cl_PollIntervalSec x) @
      (''obfuscation'', obf_json (cl_Obfuscation x)) # (''router'', router_json (cl_Router x)) #
      (''divert'', JBool (cl_Divert x)) # omit_str ''container_addr6'' (cl_ContainerAddr6 x))"

definition client_fields :: "(string \<times> (json \<Rightarrow> ClientSettings \<Rightarrow> ClientSettings option)) list" where
  "client_fields =
     [(''listen'', set_str cl_Listen_update), (''container_addr'', set_str cl_ContainerAddr_update),
      (''session_ttl_sec'', set_int cl_SessionTTLSec_update),
      (''poll_interval_sec'', set_int cl_PollIntervalSec_update),
      (''obfuscation'', set_struct (dec_struct obf_fields) cl_Obfuscation cl_Obfuscation_update),
      (''router'', set_struct (dec_struct router_fields) cl_Router cl_Router_update),
      (''divert'', set_bool cl_Divert_update), (''container_addr6'', set_str cl_ContainerAddr6_update)]"

definition settings_json :: "Settings \<Rightarrow> json" where
  "settings_json x = JObj
     (omit_str ''mode'' (st_Mode x) @ omit_str ''web_listen'' (st_WebListen x) @
      omit_str ''log_level'' (st_LogLevel x) @
      [(''server'', server_json (st_Server x)), (''client'', client_json (st_Client x))])"

definition settings_fields :: "(string \<times> (json \<Rightarrow> Settings \<Rightarrow> Settings option)) list" where
  "settings_fields =
     [(''mode'', set_str st_Mode_update), (''web_listen'', set_str st_WebListen_update),
      (''log_level'', set_str st_LogLevel_update),
      (''server'', set_struct (dec_struct server_fields) st_Server st_Server_update),
      (''client'', set_struct (dec_struct client_fields) st_Client st_Client_update)]"

text \<open>\<open>Unmarshal\<close> into a zero \<open>Settings\<close>.\<close>

definition settings_of_json :: "json \<Rightarrow> Settings option" where
  "settings_of_json j = dec_struct settings_fields j zeroSettings"

section \<open>The settings survive encoding\<close>

named_theorems dec \<comment> \<open>decoding the fields of an encoded struct\<close>

lemma field_of_map_of: "map_of fs k = Some f \<Longrightarrow> field_of fs k = Some f"
  by (simp add: field_of_def)

lemma dec_str [dec]:
  "map_of fs k = Some (set_str upd) \<Longrightarrow>
     dec_fields fs ((k, JStr v) # kvs) r = dec_fields fs kvs (upd (\<lambda>_. v) r)"
  by (simp add: field_of_map_of set_str_def)

lemma dec_bool [dec]:
  "map_of fs k = Some (set_bool upd) \<Longrightarrow>
     dec_fields fs ((k, JBool v) # kvs) r = dec_fields fs kvs (upd (\<lambda>_. v) r)"
  by (simp add: field_of_map_of set_bool_def)

lemma dec_int [dec]:
  "map_of fs k = Some (set_int upd) \<Longrightarrow> int64_ok v \<Longrightarrow>
     dec_fields fs ((k, JNum v) # kvs) r = dec_fields fs kvs (upd (\<lambda>_. v) r)"
  by (simp add: field_of_map_of set_int_def)

lemma dec_u32 [dec]:
  "map_of fs k = Some (set_u32 upd) \<Longrightarrow>
     dec_fields fs ((k, JNum (uint v)) # kvs) r = dec_fields fs kvs (upd (\<lambda>_. v) r)"
  using uint_lt2p [of v] by (simp add: field_of_map_of set_u32_def)

lemma dec_sub [dec]:
  "map_of fs k = Some (set_struct d get upd) \<Longrightarrow> d j (get r) = Some v \<Longrightarrow>
     dec_fields fs ((k, j) # kvs) r = dec_fields fs kvs (upd (\<lambda>_. v) r)"
  by (simp add: field_of_map_of set_struct_def)

lemma dec_omit_str [dec]:
  "map_of fs k = Some (set_str upd) \<Longrightarrow> upd (\<lambda>_. []) r = r \<Longrightarrow>
     dec_fields fs (omit_str k v @ kvs) r = dec_fields fs kvs (upd (\<lambda>_. v) r)"
  by (cases v) (simp_all add: omit_str_def dec_str del: dec_fields.simps(2))

lemma dec_omit_int [dec]:
  "map_of fs k = Some (set_int upd) \<Longrightarrow> int64_ok v \<Longrightarrow> upd (\<lambda>_. 0) r = r \<Longrightarrow>
     dec_fields fs (omit_int k v @ kvs) r = dec_fields fs kvs (upd (\<lambda>_. v) r)"
  by (cases "v = 0") (simp_all add: omit_int_def dec_int del: dec_fields.simps(2))

lemmas dec_omit_last [dec] = dec_omit_str [where kvs = "[]", simplified]

lemma dec_struct_JObj: "dec_struct fs (JObj kvs) r = dec_fields fs kvs r"
  by (simp add: dec_struct_def)

text \<open>What the program relies on for every struct it stores or sends as JSON: decoding the encoded
  struct onto a zero one gives it back. Then so does a struct with a field of that type, and no
  two structs share an encoding.\<close>

locale struct_codec =
  fixes fields :: "(string \<times> (json \<Rightarrow> 'a \<Rightarrow> 'a option)) list"
    and encode :: "'a \<Rightarrow> json"
    and zero :: 'a
    and ok :: "'a \<Rightarrow> bool"
  assumes decode: "ok x \<Longrightarrow> dec_struct fields (encode x) zero = Some x"
begin

lemma nested:
  "map_of fs k = Some (set_struct (dec_struct fields) get upd) \<Longrightarrow> get r = zero \<Longrightarrow> ok x \<Longrightarrow>
     dec_fields fs ((k, encode x) # kvs) r = dec_fields fs kvs (upd (\<lambda>_. x) r)"
  by (rule dec_sub [where d = "dec_struct fields" and get = get]) (simp_all add: decode)

lemma encode_inj:
  assumes "ok x" "ok y" "encode x = encode y" shows "x = y"
proof -
  have "Some x = Some y" using decode [OF assms(1)] unfolding assms(3) decode [OF assms(2)] by (rule sym)
  then show ?thesis by (rule option.inject [THEN iffD1])
qed

end

text \<open>The integers of the settings are Go \<open>int\<close>s.\<close>

definition obf_ints_ok :: "Obfuscation \<Rightarrow> bool" where
  "obf_ints_ok x \<longleftrightarrow> int64_ok (o_Jc x) \<and> int64_ok (o_Jmin x) \<and> int64_ok (o_Jmax x) \<and>
     int64_ok (o_S1 x) \<and> int64_ok (o_S2 x)"

definition server_ints_ok :: "ServerSettings \<Rightarrow> bool" where
  "server_ints_ok x \<longleftrightarrow> int64_ok (sv_RemotePort x) \<and> int64_ok (sv_SessionTTLSec x) \<and>
     int64_ok (sv_PollIntervalSec x) \<and> obf_ints_ok (sv_Obfuscation x) \<and> int64_ok (rs_APIPort (sv_Router x))"

definition client_ints_ok :: "ClientSettings \<Rightarrow> bool" where
  "client_ints_ok x \<longleftrightarrow> int64_ok (cl_SessionTTLSec x) \<and> int64_ok (cl_PollIntervalSec x) \<and>
     obf_ints_ok (cl_Obfuscation x) \<and> int64_ok (rs_APIPort (cl_Router x))"

definition ints_ok :: "Settings \<Rightarrow> bool" where
  "ints_ok s \<longleftrightarrow> server_ints_ok (st_Server s) \<and> client_ints_ok (st_Client s)"

lemmas ints_ok_defs = ints_ok_def server_ints_ok_def client_ints_ok_def obf_ints_ok_def int64_ok_def

interpretation obf: struct_codec obf_fields obf_json zeroObfuscation obf_ints_ok
proof
  fix x assume "obf_ints_ok x"
  then show "dec_struct obf_fields (obf_json x) zeroObfuscation = Some x"
    by (cases x) (simp add: dec_struct_JObj obf_json_def obf_fields_def dec zeroObfuscation_def
      obf_ints_ok_def del: dec_fields.simps(2))
qed

interpretation router: struct_codec router_fields router_json zeroRouter "\<lambda>x. int64_ok (rs_APIPort x)"
proof
  fix x :: RouterSettings assume "int64_ok (rs_APIPort x)"
  then show "dec_struct router_fields (router_json x) zeroRouter = Some x"
    by (cases x) (simp add: dec_struct_JObj router_json_def router_fields_def dec zeroRouter_def
      del: dec_fields.simps(2))
qed

lemmas blocks_nested [dec] = obf.nested router.nested

interpretation server: struct_codec server_fields server_json zeroServer server_ints_ok
proof
  fix x assume "server_ints_ok x"
  then show "dec_struct server_fields (server_json x) zeroServer = Some x"
    by (cases x) (simp add: dec_struct_JObj server_json_def server_fields_def dec zeroServer_def
      server_ints_ok_def del: dec_fields.simps(2))
qed

interpretation client: struct_codec client_fields client_json zeroClient client_ints_ok
proof
  fix x assume "client_ints_ok x"
  then show "dec_struct client_fields (client_json x) zeroClient = Some x"
    by (cases x) (simp add: dec_struct_JObj client_json_def client_fields_def dec zeroClient_def
      client_ints_ok_def del: dec_fields.simps(2))
qed

interpretation settings: struct_codec settings_fields settings_json zeroSettings ints_ok
proof
  fix x assume "ints_ok x"
  then show "dec_struct settings_fields (settings_json x) zeroSettings = Some x"
    by (cases x) (simp add: dec_struct_JObj settings_json_def settings_fields_def dec server.nested
      client.nested zeroSettings_def ints_ok_def del: dec_fields.simps(2))
qed

lemma settings_dec: "ints_ok s \<Longrightarrow> settings_of_json (settings_json s) = Some s"
  unfolding settings_of_json_def by (rule settings.decode)

text \<open>Conversely, what decoding accepts has integers in range: a property every setter keeps
  holds of every decoded struct.\<close>

lemma field_of_mem: "field_of fs k = Some f \<Longrightarrow> f \<in> snd ` set fs"
  by (auto simp: field_of_def find_Some_iff dest!: map_of_SomeD split: option.splits)
     (metis image_eqI nth_mem snd_conv)+

lemma dec_fields_keeps:
  assumes "\<And>f j r r'. f \<in> snd ` set fs \<Longrightarrow> f j r = Some r' \<Longrightarrow> P r \<Longrightarrow> P r'"
  shows "dec_fields fs kvs r = Some r' \<Longrightarrow> P r \<Longrightarrow> P r'"
proof (induction kvs arbitrary: r)
  case (Cons kj kvs)
  obtain k j where kj: "kj = (k, j)" by force
  show ?case
  proof (cases "field_of fs k")
    case (Some f)
    with Cons.prems(1) kj obtain r1 where r1: "f j r = Some r1" "dec_fields fs kvs r1 = Some r'"
      by (auto split: option.splits)
    have "P r1" using r1(1) Cons.prems(2) by (rule assms [OF field_of_mem [OF Some]])
    then show ?thesis by (rule Cons.IH [OF r1(2)])
  qed (use Cons kj in simp)
qed simp

lemma dec_struct_keeps:
  assumes "\<And>f j r r'. f \<in> snd ` set fs \<Longrightarrow> f j r = Some r' \<Longrightarrow> P r \<Longrightarrow> P r'"
  shows "dec_struct fs j r = Some r' \<Longrightarrow> P r \<Longrightarrow> P r'"
  using dec_fields_keeps [OF assms] by (auto simp: dec_struct_def split: json.splits)

lemmas setters = set_str_def set_bool_def set_int_def set_u32_def set_struct_def

lemma obf_decoded: "dec_struct obf_fields j x = Some y \<Longrightarrow> obf_ints_ok x \<Longrightarrow> obf_ints_ok y"
  by (rule dec_struct_keeps [where P = obf_ints_ok])
     (auto simp: obf_fields_def setters obf_ints_ok_def split: json.splits if_splits)

lemma router_decoded:
  "dec_struct router_fields j x = Some y \<Longrightarrow> int64_ok (rs_APIPort x) \<Longrightarrow> int64_ok (rs_APIPort y)"
  by (rule dec_struct_keeps [where P = "\<lambda>x. int64_ok (rs_APIPort x)"])
     (auto simp: router_fields_def setters split: json.splits if_splits)

lemma server_decoded: "dec_struct server_fields j x = Some y \<Longrightarrow> server_ints_ok x \<Longrightarrow> server_ints_ok y"
  by (rule dec_struct_keeps [where P = server_ints_ok])
     (auto simp: server_fields_def setters server_ints_ok_def obf_decoded router_decoded split: json.splits if_splits)

lemma client_decoded: "dec_struct client_fields j x = Some y \<Longrightarrow> client_ints_ok x \<Longrightarrow> client_ints_ok y"
  by (rule dec_struct_keeps [where P = client_ints_ok])
     (auto simp: client_fields_def setters client_ints_ok_def obf_decoded router_decoded split: json.splits if_splits)

lemma settings_decoded: "settings_of_json j = Some s \<Longrightarrow> ints_ok s"
  unfolding settings_of_json_def
proof (rule dec_struct_keeps [where P = ints_ok])
  show "ints_ok zeroSettings"
    by (simp add: ints_ok_defs zeroSettings_def zeroServer_def zeroClient_def zeroObfuscation_def zeroRouter_def)
qed (auto simp: settings_fields_def setters ints_ok_def server_decoded client_decoded split: json.splits if_splits)

section \<open>The file\<close>

text \<open>The text form of JSON: \<open>Unmarshal\<close>'s parser and \<open>MarshalIndent\<close>.\<close>

record jsonlib =
  js_parse :: "string \<Rightarrow> json option"
  js_print :: "json \<Rightarrow> string"

text \<open>What \<open>os.ReadFile\<close> finds.\<close>

datatype cfile = NoFile | Unreadable | Content string

definition readRaw :: "jsonlib \<Rightarrow> cfile \<Rightarrow> gerror + Settings \<times> bool" where
  "readRaw lib f =
     (case f of
        NoFile \<Rightarrow> Inr (zeroSettings, False)
      | Unreadable \<Rightarrow> Inl (Msg ''read config'')
      | Content data \<Rightarrow>
          if TrimSpace data = [] then Inr (zeroSettings, False)
          else (case js_parse lib data of
              None \<Rightarrow> Inl (Msg ''parse config'')
            | Some j \<Rightarrow>
                (case settings_of_json j of
                   None \<Rightarrow> Inl (Msg ''parse config'')
                 | Some s \<Rightarrow> Inr (s, True))))"

definition Load :: "jsonlib \<Rightarrow> cfile \<Rightarrow> gerror + Config" where
  "Load lib f = (case readRaw lib f of Inl e \<Rightarrow> Inl e | Inr (s, _) \<Rightarrow> Inr (ToConfig s))"

definition Validate :: "Config \<Rightarrow> gerror option" where
  "Validate c = validate c"

definition Read :: "jsonlib \<Rightarrow> cfile \<Rightarrow> gerror + Settings" where
  "Read lib f = (case readRaw lib f of Inl e \<Rightarrow> Inl e | Inr (s, _) \<Rightarrow> Inr (withDefaults s))"

definition SectionRouter :: string where "SectionRouter = ''router''"
definition SectionService :: string where "SectionService = ''service''"

definition validateSection :: "string \<Rightarrow> Config \<Rightarrow> gerror option" where
  "validateSection section c =
     (if section = SectionRouter then validateRouter c
      else if section = SectionService then validateService c
      else validate c)"

text \<open>\<open>Write\<close>: \<open>wfile data f\<close> is \<open>os.WriteFile\<close> on the file \<open>f\<close>, whether it succeeded and
  what it leaves.\<close>

definition Write ::
  "jsonlib \<Rightarrow> (string \<Rightarrow> cfile \<Rightarrow> bool \<times> cfile) \<Rightarrow> cfile \<Rightarrow> Settings \<Rightarrow> string \<Rightarrow> gerror option \<times> cfile" where
  "Write lib wfile f s section =
     (case validateSection section (ToConfig s) of
        Some e \<Rightarrow> (Some e, f)
      | None \<Rightarrow>
          (case wfile (js_print lib (settings_json (withDefaults s))) f of
             (ok, f') \<Rightarrow> (if ok then None else Some (Msg ''write config''), f')))"

section \<open>Lemmas\<close>

lemma or_str_or_str [simp]: "or_str (or_str s d) d = or_str s d"
  by (simp add: or_str_def)

lemma or_int_or_int [simp]: "or_int (or_int n d) d = or_int n d"
  by (simp add: or_int_def)

lemma defaultObfuscation_idem [simp]: "defaultObfuscation (defaultObfuscation x) = defaultObfuscation x"
  by (simp add: defaultObfuscation_def)

lemma defaultRouter_idem [simp]: "defaultRouter (defaultRouter x) = defaultRouter x"
  by (simp add: defaultRouter_def)

lemma withDefaults_idem [simp]: "withDefaults (withDefaults s) = withDefaults s"
  by (simp add: withDefaults_def Let_def)

lemma ToConfig_withDefaults [simp]: "ToConfig (withDefaults s) = ToConfig s"
  by (simp add: ToConfig_def)

lemma ints_ok_withDefaults: "ints_ok s \<Longrightarrow> ints_ok (withDefaults s)"
  by (auto simp: ints_ok_defs withDefaults_def Let_def or_int_def defaultObfuscation_def defaultRouter_def
      defTTL_def defPoll_def defAPIPort_def defJc_def defJmin_def defJmax_def)

text \<open>The router block the web interface checks credentials against is the one the stack
  runs with.\<close>

lemma ActiveRouter_ToConfig: "routerConn (ActiveRouter (withDefaults s)) = c_Router (ToConfig s)"
  by (simp add: ActiveRouter_def ToConfig_def Let_def fillClient_def fillServer_def)

section \<open>Properties\<close>

text \<open>
  C27. The settings survive the JSON file: decoding the tree \<open>Write\<close> encodes gives the same
  settings, for every value of every field, also where \<open>omitzero\<close> leaves a zero field out.
\<close>

theorem settings_json_roundtrip:
  assumes "ints_ok s"
  shows "settings_of_json (settings_json s) = Some s"
  using assms by (rule settings_dec)

theorem settings_json_roundtrip_witness:
  "settings_of_json (settings_json (zeroSettings\<lparr>st_Mode := ''client''\<rparr>)) = Some (zeroSettings\<lparr>st_Mode := ''client''\<rparr>)"
  by (rule settings_json_roundtrip) (simp add: ints_ok_defs zeroSettings_def
      zeroServer_def zeroClient_def zeroObfuscation_def zeroRouter_def)

text \<open>The text form gives settings back: what \<open>MarshalIndent\<close> prints is not blank and parses to
  the tree printed.\<close>

definition readable :: "jsonlib \<Rightarrow> Settings \<Rightarrow> bool" where
  "readable lib s \<longleftrightarrow> (let d = js_print lib (settings_json (withDefaults s)) in
     TrimSpace d \<noteq> [] \<and> js_parse lib d = Some (settings_json (withDefaults s)))"

text \<open>What the web interface saves is what the service runs with: after a successful \<open>Write\<close>,
  the section asked for is valid, \<open>Read\<close> returns the settings with their defaults and \<open>Load\<close>
  the configuration that was validated; saving what \<open>Read\<close> returned changes nothing.\<close>

lemma Write_loads:
  assumes "Write lib wfile f s section = (None, f')" "ints_ok s"
    and "\<forall>d f g. wfile d f = (True, g) \<longrightarrow> g = Content d"
    and "readable lib s"
  shows "Read lib f' = Inr (withDefaults s) \<and> Load lib f' = Inr (ToConfig s) \<and>
    validateSection section (ToConfig s) = None \<and>
    (\<forall>g. Write lib wfile g (withDefaults s) section = Write lib wfile g s section)"
proof -
  have v: "validateSection section (ToConfig s) = None"
    using assms(1) by (auto simp: Write_def split: option.splits)
  with assms(1,3) have "f' = Content (js_print lib (settings_json (withDefaults s)))"
    by (force simp: Write_def split: prod.splits if_splits)
  then have "readRaw lib f' = Inr (withDefaults s, True)"
    using assms(4) settings_dec [OF ints_ok_withDefaults [OF assms(2)]]
    by (simp add: readRaw_def readable_def Let_def)
  with v show ?thesis by (simp add: Read_def Load_def Write_def)
qed

definition demo_settings :: Settings where
  "demo_settings = zeroSettings\<lparr>st_Server := zeroServer\<lparr>sv_Router := zeroRouter\<lparr>rs_Address := ''r'', rs_Password := ''p''\<rparr>\<rparr>\<rparr>"

end
