(* ===== verification/Proxy_Server.thy ===== *)
theory Proxy_Server
  imports Traces Proxy_Sessions Awg_Identify Router_Poller Config
begin

text \<open>
  Package \<open>proxy\<close>, files \<open>proxy.go\<close>, \<open>server.go\<close> and the \<open>gcLoop\<close> of \<open>sessions.go\<close>: the
  server-mode proxy. Its three goroutines share the session table and the poller's snapshot
  and run against the network; they are the components of a labelled transition system whose
  steps are the atomic ones of the code (a datagram read, a call of a table method, a
  datagram written, a timer tick), in any interleaving. A panic of one goroutine ends the
  process.
\<close>

section \<open>proxy.go\<close>

definition params_of :: "Config \<Rightarrow> Params" where
  "params_of c = \<lparr>pH1 = c_H1 c, pH2 = c_H2 c, pH3 = c_H3 c, pH4 = c_H4 c,
     pS1 = c_S1 c, pS2 = c_S2 c, pJc = c_Jc c, pJmin = c_Jmin c, pJmax = c_Jmax c\<rparr>"

datatype runner = ClientRunner Params | ServerRunner Params int

text \<open>\<open>New\<close>: the variant of the mode with its parameters, the server one with the TTL of its
  table.\<close>

definition New :: "Config \<Rightarrow> runner" where
  "New c = (if c_Mode c = ModeClient then ClientRunner (params_of c)
     else ServerRunner (params_of c) (c_SessionTTL c))"

definition maxPacket :: nat where "maxPacket = 65535"

text \<open>\<open>ReadFromUDP(buf)\<close>, then \<open>buf[:n]\<close>: the datagram overwrites the front of the reused
  buffer; what does not fit is cut off.\<close>

definition recv_into :: "bytes \<Rightarrow> bytes \<Rightarrow> gslice" where
  "recv_into buf d = (let d = take (length buf) d in gs d (drop (length d) buf))"

text \<open>The backing array of a packet after writes through a subslice that reaches to the end of
  the array.\<close>

definition buf_after :: "gslice \<Rightarrow> gslice \<Rightarrow> bytes" where
  "buf_after pkt sub = take (length (arr pkt) - length (arr sub)) (arr pkt) @ arr sub"

text \<open>\<open>time.NewTicker\<close> panics on a duration that is not positive.\<close>

definition NewTicker :: "int \<Rightarrow> unit go" where
  "NewTicker d = (if d \<le> 0 then None else Some ())"

text \<open>\<open>gcLoop\<close> up to its loop, each turn of which is one call of \<open>gc\<close>.\<close>

definition gcLoop :: "table \<Rightarrow> unit go" where
  "gcLoop t = NewTicker (ttl t)"

section \<open>server.go\<close>

text \<open>The sockets \<open>Run\<close> opens: \<open>nl_resolve\<close>, \<open>nl_listen\<close> and \<open>nl_dial\<close> are \<open>net.ResolveUDPAddr\<close>,
  \<open>net.ListenUDP\<close> and \<open>net.DialUDP\<close>. The result is the error, and the sockets that are open when
  \<open>Run\<close> returns it or enters its loops.\<close>

record netlib =
  nl_resolve :: "string \<Rightarrow> addr option"
  nl_listen :: "addr \<Rightarrow> bool"
  nl_dial :: "addr \<Rightarrow> bool"

datatype socket = Listening addr | Connected addr

definition server_Run :: "netlib \<Rightarrow> Config \<Rightarrow> gerror option \<times> socket list" where
  "server_Run nl c =
     (case nl_resolve nl (c_Listen c) of
        None \<Rightarrow> (Some (Msg ''listen address''), [])
      | Some l \<Rightarrow>
          if \<not> nl_listen nl l then (Some (Msg (''listen '' @ c_Listen c)), [])
          else case nl_resolve nl (c_Remote c) of
              None \<Rightarrow> (Some (Msg ''remote address''), [Listening l])
            | Some r \<Rightarrow>
                if \<not> nl_dial nl r then (Some (Msg (''dial '' @ c_Remote c)), [Listening l])
                else (None, [Listening l, Connected r]))"

text \<open>A remote address that does not resolve leaves the listening socket open: the function
  that closes it is registered only afterwards.\<close>

lemma server_Run_leaks_listener:
  "nl_resolve nl (c_Listen c) = Some l \<Longrightarrow> nl_listen nl l \<Longrightarrow> nl_resolve nl (c_Remote c) = None \<Longrightarrow>
     server_Run nl c = (Some (Msg ''remote address''), [Listening l])"
  by (simp add: server_Run_def)

text \<open>What the client loop does with one packet after reading the snapshot: the calls on the
  table and the datagram for the WireGuard server, in this order.\<close>

datatype cact =
    CInit addr u32
  | CSetPub addr key
  | CTraffic addr
  | CForward bytes

definition client_acts :: "xcrypto \<Rightarrow> Snapshot \<Rightarrow> addr \<Rightarrow> gslice \<Rightarrow> u32 \<Rightarrow> cact list go" where
  "client_acts cr snap a plain typ =
     (if typ = TypeInit then do {
        i \<leftarrow> SenderIndex plain;
        Some (CInit a i #
          (if sn_ServerPriv snap \<noteq> zero_key
           then (case ClientPubFromInit cr (view plain) (sn_ServerPriv snap) (sn_ServerPub snap) of
               Some pub \<Rightarrow> [CSetPub a pub] | None \<Rightarrow> [])
           else [])) }
      else if typ = TypeTransport then Some [CTraffic a]
      else Some [])"

text \<open>The actions and the buffer afterwards.\<close>

definition client_packet ::
  "xcrypto \<Rightarrow> Params \<Rightarrow> Snapshot \<Rightarrow> addr \<Rightarrow> gslice \<Rightarrow> (cact list \<times> bytes) go" where
  "client_packet cr p snap a pkt = do {
     r \<leftarrow> Deobfuscate cr p pkt (sn_ServerPub snap);
     (case r of
        None \<Rightarrow> Some ([], arr pkt)
      | Some (plain, typ) \<Rightarrow> do {
          acts \<leftarrow> client_acts cr snap a plain typ;
          Some (acts @ [CForward (view plain)], buf_after pkt plain) }) }"

text \<open>Where the server loop stands: waiting for a datagram, about to look its index up, or
  sending one copy per key.\<close>

datatype sgor =
    SIdle
  | SLookup gslice u32 bool "key list"
  | SSend gslice addr "key list"

definition server_packet :: "Snapshot \<Rightarrow> gslice \<Rightarrow> sgor go" where
  "server_packet snap plain = do {
     typ \<leftarrow> Type plain;
     idx \<leftarrow> ReceiverIndex plain;
     Some (SLookup plain idx (typ = TypeResponse) (sn_ClientPubs snap)) }"

definition next_send :: "gslice \<Rightarrow> addr \<Rightarrow> key list \<Rightarrow> sgor" where
  "next_send plain a ks = (if ks = [] then SIdle else SSend plain a ks)"

definition send_to :: "gslice \<Rightarrow> (addr \<times> key list) option \<Rightarrow> sgor" where
  "send_to plain r = (case r of None \<Rightarrow> SIdle | Some (a, ks) \<Rightarrow> next_send plain a ks)"

record srv =
  sv_tbl :: table
  sv_snap :: "Snapshot option"   \<comment> \<open>the poller's \<open>cur\<close>\<close>
  sv_cbuf :: bytes               \<comment> \<open>the client loop's buffer and what it has still to do\<close>
  sv_cacts :: "cact list"
  sv_sbuf :: bytes               \<comment> \<open>the server loop's buffer and position\<close>
  sv_sgor :: sgor
  sv_ticking :: bool             \<comment> \<open>\<open>gcLoop\<close> has its ticker\<close>
  sv_closed :: bool              \<comment> \<open>the context is done, the sockets are closed\<close>
  sv_dead :: bool                \<comment> \<open>a goroutine has panicked\<close>

definition newServer :: "int \<Rightarrow> srv" where
  "newServer d = \<lparr>sv_tbl = newTable d, sv_snap = None, sv_cbuf = replicate maxPacket 0, sv_cacts = [],
     sv_sbuf = replicate maxPacket 0, sv_sgor = SIdle, sv_ticking = False, sv_closed = False, sv_dead = False\<rparr>"

text \<open>A datagram from a client and its source, a call on the table, a datagram to the
  WireGuard server and whether it could be written, one from it, a reply to a client and
  whether it could be written, a new snapshot, the start of the ticker, the end of the
  context, and a panic.\<close>

datatype event =
    EClient addr bytes
  | ECall op
  | EForward bytes bool
  | EServer bytes
  | EReply addr bytes bool
  | ESnap Snapshot
  | ETicker
  | EClose
  | EPanic

text \<open>The call on the table an action makes at a time.\<close>

fun act_op :: "cact \<Rightarrow> int \<Rightarrow> op option" where
  "act_op (CInit a i) now = Some (OpInit a i now)"
| "act_op (CSetPub a pub) now = Some (OpSetPub a pub)"
| "act_op (CTraffic a) now = Some (OpTraffic a now)"
| "act_op (CForward m) now = None"

text \<open>\<open>rnd\<close> is what \<open>crand.Read\<close> gives in a step.\<close>

inductive srv_step :: "xcrypto \<Rightarrow> Params \<Rightarrow> srv \<Rightarrow> event \<Rightarrow> srv \<Rightarrow> bool" for cr p where
  client_nosnap:
    "\<not> sv_dead s \<Longrightarrow> \<not> sv_closed s \<Longrightarrow> sv_cacts s = [] \<Longrightarrow> sv_snap s = None \<Longrightarrow>
     srv_step cr p s (EClient a d) (s\<lparr>sv_cbuf := arr (recv_into (sv_cbuf s) d)\<rparr>)"
| client_recv:
    "\<not> sv_dead s \<Longrightarrow> \<not> sv_closed s \<Longrightarrow> sv_cacts s = [] \<Longrightarrow> sv_snap s = Some snap \<Longrightarrow>
     client_packet cr p snap a (recv_into (sv_cbuf s) d) = Some (acts, buf) \<Longrightarrow>
     srv_step cr p s (EClient a d) (s\<lparr>sv_cbuf := buf, sv_cacts := acts\<rparr>)"
| client_panic:
    "\<not> sv_dead s \<Longrightarrow> \<not> sv_closed s \<Longrightarrow> sv_cacts s = [] \<Longrightarrow> sv_snap s = Some snap \<Longrightarrow>
     client_packet cr p snap a (recv_into (sv_cbuf s) d) = None \<Longrightarrow>
     srv_step cr p s (EClient a d) (s\<lparr>sv_dead := True\<rparr>)"
| client_call:
    "\<not> sv_dead s \<Longrightarrow> sv_cacts s = act # acts \<Longrightarrow> act_op act now = Some x \<Longrightarrow>
     srv_step cr p s (ECall x) (s\<lparr>sv_tbl := exec (sv_tbl s) x, sv_cacts := acts\<rparr>)"
| client_forward:
    "\<not> sv_dead s \<Longrightarrow> sv_cacts s = CForward m # acts \<Longrightarrow>
     srv_step cr p s (EForward m ok) (s\<lparr>sv_cacts := acts\<rparr>)"
| server_nosnap:
    "\<not> sv_dead s \<Longrightarrow> \<not> sv_closed s \<Longrightarrow> sv_sgor s = SIdle \<Longrightarrow> sv_snap s = None \<Longrightarrow>
     srv_step cr p s (EServer d) (s\<lparr>sv_sbuf := arr (recv_into (sv_sbuf s) d)\<rparr>)"
| server_recv:
    "\<not> sv_dead s \<Longrightarrow> \<not> sv_closed s \<Longrightarrow> sv_sgor s = SIdle \<Longrightarrow> sv_snap s = Some snap \<Longrightarrow>
     server_packet snap (recv_into (sv_sbuf s) d) = Some g \<Longrightarrow>
     srv_step cr p s (EServer d) (s\<lparr>sv_sbuf := arr (recv_into (sv_sbuf s) d), sv_sgor := g\<rparr>)"
| server_panic:
    "\<not> sv_dead s \<Longrightarrow> \<not> sv_closed s \<Longrightarrow> sv_sgor s = SIdle \<Longrightarrow> sv_snap s = Some snap \<Longrightarrow>
     server_packet snap (recv_into (sv_sbuf s) d) = None \<Longrightarrow>
     srv_step cr p s (EServer d) (s\<lparr>sv_dead := True\<rparr>)"
| server_lookup:
    "\<not> sv_dead s \<Longrightarrow> sv_sgor s = SLookup plain i np cands \<Longrightarrow>
     responseTargets (sv_tbl s) i cands np now = (r, t) \<Longrightarrow>
     srv_step cr p s (ECall (OpTargets i cands np now)) (s\<lparr>sv_tbl := t, sv_sgor := send_to plain r\<rparr>)"
| server_reply:
    "\<not> sv_dead s \<Longrightarrow> sv_sgor s = SSend plain a (k # ks) \<Longrightarrow> (\<And>n. length (rnd n) = n) \<Longrightarrow>
     Obfuscate cr rnd p plain k = Some out \<Longrightarrow>
     srv_step cr p s (EReply a (view out) ok)
       (s\<lparr>sv_sgor := (if ok then next_send plain a ks else SIdle)\<rparr>)"
| server_reply_panic:
    "\<not> sv_dead s \<Longrightarrow> sv_sgor s = SSend plain a (k # ks) \<Longrightarrow> (\<And>n. length (rnd n) = n) \<Longrightarrow>
     Obfuscate cr rnd p plain k = None \<Longrightarrow>
     srv_step cr p s EPanic (s\<lparr>sv_dead := True\<rparr>)"
| gc_start:
    "\<not> sv_dead s \<Longrightarrow> \<not> sv_ticking s \<Longrightarrow> gcLoop (sv_tbl s) = Some u \<Longrightarrow>
     srv_step cr p s ETicker (s\<lparr>sv_ticking := True\<rparr>)"
| gc_panic:
    "\<not> sv_dead s \<Longrightarrow> \<not> sv_ticking s \<Longrightarrow> gcLoop (sv_tbl s) = None \<Longrightarrow>
     srv_step cr p s EPanic (s\<lparr>sv_dead := True\<rparr>)"
| gc_tick:
    "\<not> sv_dead s \<Longrightarrow> sv_ticking s \<Longrightarrow>
     srv_step cr p s (ECall (OpGc now)) (s\<lparr>sv_tbl := exec (sv_tbl s) (OpGc now)\<rparr>)"
| snapshot:
    "\<not> sv_dead s \<Longrightarrow> srv_step cr p s (ESnap snap) (s\<lparr>sv_snap := Some snap\<rparr>)"
| close:
    "\<not> sv_dead s \<Longrightarrow> srv_step cr p s EClose (s\<lparr>sv_closed := True\<rparr>)"

text \<open>The traces of a proxy, latest event last.\<close>

abbreviation srv_trace :: "xcrypto \<Rightarrow> Params \<Rightarrow> int \<Rightarrow> event list \<Rightarrow> srv \<Rightarrow> bool" where
  "srv_trace cr p d \<equiv> trace (srv_step cr p) (newServer d)"

lemmas srv_nil = trace.nil [where step = "srv_step cr p" and ?s0.0 = "newServer d" for cr p d]
lemmas srv_snoc = trace.snoc [where step = "srv_step cr p" and ?s0.0 = "newServer d" for cr p d]

inductive_cases srv_replyE: "srv_step cr p s (EReply a out ok) s'"

fun calls :: "event list \<Rightarrow> op list" where
  "calls [] = []"
| "calls (ECall x # tr) = x # calls tr"
| "calls (_ # tr) = calls tr"

section \<open>The table of a running proxy\<close>

lemma calls_append [simp]: "calls (tr @ tr') = calls tr @ calls tr'"
  by (induction tr rule: calls.induct) simp_all

text \<open>Refinement: the table of a proxy in any state is the one the calls of its trace build,
  each taken as one atomic step.\<close>

interpretation table: trace_inv "srv_step cr p" "newServer d" "\<lambda>_. True"
    "\<lambda>tr s. sv_tbl s = run (newTable d) (calls tr)" for cr p d
proof (unfold_locales, goal_cases)
  case (2 tr s e s')
  from 2(4,2) show ?case by (cases rule: srv_step.cases) simp_all
qed (simp add: newServer_def)

lemma srv_table: "srv_trace cr p d tr s \<Longrightarrow> sv_tbl s = run (newTable d) (calls tr)"
  by (rule table.holds) simp_all

lemma wf_srv_table: "srv_trace cr p d tr s \<Longrightarrow> wf_table (sv_tbl s)"
  by (simp add: srv_table wf_run)

lemma recv_into_gs:
  "recv_into buf d = gs (take (length buf) d) (drop (length (take (length buf) d)) buf)"
  by (simp add: recv_into_def Let_def)

lemma length_recv_into [simp]: "length (arr (recv_into buf d)) = length buf"
  by (simp add: recv_into_gs gs_simps)

text \<open>Actions of the client loop concern the source of the packet.\<close>

fun act_addr :: "cact \<Rightarrow> addr option" where
  "act_addr (CInit a i) = Some a"
| "act_addr (CSetPub a pub) = Some a"
| "act_addr (CTraffic a) = Some a"
| "act_addr (CForward m) = None"

lemma client_acts_addr:
  "client_acts cr snap a plain typ = Some acts \<Longrightarrow> act \<in> set acts \<Longrightarrow> act_addr act = Some a"
  by (auto simp: client_acts_def split: if_splits option.splits bind_splits)

lemma client_packet_addr:
  "client_packet cr p snap a pkt = Some (acts, buf) \<Longrightarrow> act \<in> set acts \<Longrightarrow>
     act_addr act = Some a \<or> act_addr act = None"
  by (auto simp: client_packet_def split: option.splits prod.splits bind_splits)
     (drule (1) client_acts_addr, simp)

text \<open>Where the actions under way and the calls made come from.\<close>

definition from_clients :: "event list \<Rightarrow> srv \<Rightarrow> bool" where
  "from_clients tr s \<longleftrightarrow>
     (\<forall>act \<in> set (sv_cacts s). \<forall>a. act_addr act = Some a \<longrightarrow> (\<exists>m. EClient a m \<in> set tr)) \<and>
     (\<forall>a i now. ECall (OpInit a i now) \<in> set tr \<longrightarrow> (\<exists>m. EClient a m \<in> set tr))"

interpretation clients: trace_inv "srv_step cr p" "newServer d" "\<lambda>_. True" from_clients for cr p d
proof (unfold_locales, goal_cases)
  case (2 tr s e s')
  from 2(4,2) show ?case
  proof (cases rule: srv_step.cases)
    case (client_recv snap a m acts buf)
    then show ?thesis using 2(2) client_packet_addr [OF client_recv(7)]
      by (fastforce simp: from_clients_def)
  next
    case (client_call act acts now x)
    then show ?thesis using 2(2)
      by (cases act) (fastforce simp: from_clients_def)+
  qed (auto simp: from_clients_def)
qed (simp add: from_clients_def newServer_def)

lemma last_init_mem: "last_init i ops = Some a \<Longrightarrow> \<exists>now. OpInit a i now \<in> set ops"
  by (induction i ops rule: last_init.induct) (auto split: option.splits if_splits)

lemma calls_mem: "x \<in> set (calls tr) \<Longrightarrow> ECall x \<in> set tr"
  by (induction tr rule: calls.induct) auto

text \<open>What the server loop holds: the datagram it read, and, while it sends, the lookup that
  gave the address.\<close>

definition srv_plain :: "event list \<Rightarrow> gslice \<Rightarrow> u32 \<Rightarrow> bool" where
  "srv_plain tr plain i \<longleftrightarrow>
     (\<exists>m rest. EServer m \<in> set tr \<and> plain = gs (take maxPacket m) rest \<and> ReceiverIndex plain = Some i)"

definition looked_up :: "int \<Rightarrow> event list \<Rightarrow> u32 \<Rightarrow> addr \<Rightarrow> key list \<Rightarrow> bool" where
  "looked_up d tr i a ks \<longleftrightarrow>
     (\<exists>tr1 tr2 cands np now. tr = tr1 @ ECall (OpTargets i cands np now) # tr2 \<and>
        fst (responseTargets (run (newTable d) (calls tr1)) i cands np now) = Some (a, ks) \<and>
        (\<exists>m. EClient a m \<in> set tr1) \<and> last_init i (calls tr1) = Some a)"

definition srv_loop_inv :: "int \<Rightarrow> event list \<Rightarrow> srv \<Rightarrow> bool" where
  "srv_loop_inv d tr s \<longleftrightarrow> length (sv_sbuf s) = maxPacket \<and>
     (case sv_sgor s of
        SIdle \<Rightarrow> True
      | SLookup plain i np cands \<Rightarrow> srv_plain tr plain i
      | SSend plain a ks \<Rightarrow> \<exists>i ks0. srv_plain tr plain i \<and> looked_up d tr i a ks0 \<and> set ks \<subseteq> set ks0)"

lemma server_packet_plain:
  assumes "server_packet snap (recv_into buf m) = Some g" "length buf = maxPacket" "EServer m \<in> set tr"
  obtains i where "g = SLookup (recv_into buf m) i
      (Type (recv_into buf m) = Some TypeResponse) (sn_ClientPubs snap)"
    "srv_plain tr (recv_into buf m) i"
proof -
  obtain t i where ti: "Type (recv_into buf m) = Some t" "ReceiverIndex (recv_into buf m) = Some i"
    "g = SLookup (recv_into buf m) i (t = TypeResponse) (sn_ClientPubs snap)"
    using assms(1) by (auto simp: server_packet_def split: bind_splits)
  moreover have "srv_plain tr (recv_into buf m) i"
    unfolding srv_plain_def using assms(2,3) ti(2) recv_into_gs [of buf m] by auto
  ultimately show thesis by (intro that [of i]) simp_all
qed

lemma srv_plain_mono: "srv_plain tr plain i \<Longrightarrow> srv_plain (tr @ tr') plain i"
  by (auto simp: srv_plain_def)

lemma looked_up_mono: "looked_up d tr i a ks \<Longrightarrow> looked_up d (tr @ tr') i a ks"
  unfolding looked_up_def by fastforce

lemma srv_loop_inv_mono:
  "srv_loop_inv d tr s \<Longrightarrow> sv_sbuf s' = sv_sbuf s \<Longrightarrow> sv_sgor s' = sv_sgor s \<Longrightarrow>
     srv_loop_inv d (tr @ tr') s'"
  by (auto simp: srv_loop_inv_def dest: srv_plain_mono looked_up_mono split: sgor.splits)

interpretation loop: trace_inv "srv_step cr p" "newServer d" "\<lambda>_. True" "srv_loop_inv d" for cr p d
proof (unfold_locales, goal_cases)
  case (2 tr s e s')
  from 2(4) show ?case
  proof (cases rule: srv_step.cases)
    case (server_nosnap m)
    with 2(2) show ?thesis by (simp add: srv_loop_inv_def)
  next
    case (server_recv snap m g)
    have l: "length (sv_sbuf s) = maxPacket" using 2(2) by (simp add: srv_loop_inv_def)
    have "EServer m \<in> set (tr @ [e])" using server_recv by simp
    from server_packet_plain [OF server_recv(7) l this] obtain i np cands
      where "g = SLookup (recv_into (sv_sbuf s) m) i np cands" "srv_plain (tr @ [e]) (recv_into (sv_sbuf s) m) i" .
    then show ?thesis unfolding server_recv(2) srv_loop_inv_def by (simp add: l)
  next
    case (server_lookup plain i np cands now r t)
    show ?thesis
    proof (cases r)
      case None
      with server_lookup 2(2) show ?thesis by (simp add: srv_loop_inv_def send_to_def)
    next
      case (Some aks)
      obtain a ks where r: "r = Some (a, ks)" using Some by (cases aks) auto
      have f: "fst (responseTargets (run (newTable d) (calls tr)) i cands np now) = Some (a, ks)"
        using server_lookup(5) r srv_table [OF 2(1)] by simp
      have l: "last_init i (calls tr) = Some a" by (rule reply_goes_to_last_initiator [OF f])
      then obtain m where "EClient a m \<in> set tr"
        using clients.holds [OF 2(1)] last_init_mem calls_mem
        unfolding from_clients_def by blast
      with f l have "looked_up d (tr @ [e]) i a ks"
        unfolding looked_up_def server_lookup(1) by blast
      moreover have "srv_plain (tr @ [e]) plain i"
        using 2(2) server_lookup(4) by (simp add: srv_loop_inv_def srv_plain_mono)
      ultimately show ?thesis using server_lookup 2(2) r
        by (auto simp: srv_loop_inv_def send_to_def next_send_def)
    qed
  next
    case (server_reply plain a k ks rnd out ok)
    have "srv_loop_inv d (tr @ [e]) s" by (rule srv_loop_inv_mono [OF 2(2)]) simp_all
    with server_reply show ?thesis
      by (auto simp: srv_loop_inv_def next_send_def) blast
  qed (use 2(2) in \<open>auto intro: srv_loop_inv_mono\<close>)
qed (simp add: srv_loop_inv_def newServer_def)

section \<open>No panic\<close>

text \<open>What the code needs for its slices beside the fixed buffers: prefixes that are not
  negative and, for the index readers, eight bytes of buffer behind the initiation prefix.\<close>

definition room_ok :: "Params \<Rightarrow> bool" where
  "room_ok p \<longleftrightarrow> sizes_ok p \<and> pS1 p \<le> 65527"

lemma buf_after_gs:
  "length m + off = length bs \<Longrightarrow> buf_after (gs bs rest) (gs m rest) = take off bs @ m @ rest"
  by (auto simp: buf_after_def gs_simps dest!: sym [of "length m + off"])

lemma Deobfuscate_shape:
  assumes "mac_sized cr" "sizes_ok p"
    and "Deobfuscate cr p (gs bs rest) pub = Some (Some (s, t))"
  obtains m off where "s = gs m rest" "length m + off = length bs" "4 \<le> length m"
    "t = TypeInit \<longrightarrow> off = nat (pS1 p)"
proof -
  from assms obtain off where *: "s = gs (remac cr pub t (retype t (drop off bs))) rest"
    "off + 4 \<le> length bs" "t = TypeInit \<longrightarrow> off = nat (pS1 p)"
    by (rule Deobfuscate_cases)
  with assms(1) show thesis
    by (intro that [of "remac cr pub t (retype t (drop off bs))" off]) simp_all
qed

lemma client_packet_total:
  assumes "mac_sized cr" "room_ok p" "length buf = maxPacket"
  obtains acts buf' where "client_packet cr p snap a (recv_into buf d) = Some (acts, buf')"
    "length buf' = maxPacket"
proof -
  define bs rest where "bs = take (length buf) d" and "rest = drop (length bs) buf"
  have g: "recv_into buf d = gs bs rest" by (simp add: recv_into_gs bs_def rest_def)
  have len: "length bs + length rest = maxPacket"
    using assms(3) by (auto simp: bs_def rest_def)
  have ok: "sizes_ok p" "pS1 p \<le> 65527" using assms(2) by (simp_all add: room_ok_def)
  obtain r where r: "Deobfuscate cr p (gs bs rest) (sn_ServerPub snap) = Some r"
    using Deobfuscate_gs [OF assms(1) ok(1)] by blast
  show thesis
  proof (cases r)
    case None
    with that [of "[]" "bs @ rest"] show ?thesis by (simp add: g client_packet_def r gs_simps len)
  next
    case (Some st)
    then obtain s t where st: "r = Some (s, t)" by (cases st) auto
    from r st have "Deobfuscate cr p (gs bs rest) (sn_ServerPub snap) = Some (Some (s, t))" by simp
    from Deobfuscate_shape [OF assms(1) ok(1) this] obtain m off where
      m: "s = gs m rest" "length m + off = length bs" and off: "t = TypeInit \<longrightarrow> off = nat (pS1 p)" .
    have "t = TypeInit \<Longrightarrow> 8 \<le> length (arr s)"
      using off ok(2) m len by (simp add: gs_simps maxPacket_def)
    then have "client_acts cr snap a s t \<noteq> None"
      by (auto simp: client_acts_def SenderIndex_arr wg_types)
    then obtain acts where "client_acts cr snap a s t = Some acts" by blast
    then have "client_packet cr p snap a (recv_into buf d) =
        Some (acts @ [CForward m], take off bs @ m @ rest)"
      using m by (simp add: g client_packet_def r st buf_after_gs gs_sel)
    moreover have "length (take off bs @ m @ rest) = maxPacket" using m(2) len by simp
    ultimately show ?thesis by (rule that)
  qed
qed

lemma server_packet_total: "length buf = maxPacket \<Longrightarrow> server_packet snap (recv_into buf d) \<noteq> None"
  by (simp add: server_packet_def recv_into_gs Type_gs ReceiverIndex_gs maxPacket_def)

lemma run_ttl [simp]: "ttl (run t ops) = ttl t"
  by (induction ops arbitrary: t) simp_all

text \<open>The buffer of the client loop keeps its size and no loop panics, when the configuration
  leaves room and the WireGuard server's datagrams have a header.\<close>

definition srv_safe :: "event list \<Rightarrow> srv \<Rightarrow> bool" where
  "srv_safe tr s \<longleftrightarrow> (\<forall>m. EServer m \<in> set tr \<longrightarrow> 4 \<le> length m) \<and> \<not> sv_dead s \<and> length (sv_cbuf s) = maxPacket"

lemma srv_safe_step:
  assumes "srv_step cr p s e s'" "srv_loop_inv d tr s" "srv_safe tr s"
    and "mac_sized cr" "room_ok p" "0 < ttl (sv_tbl s)"
  shows "\<not> sv_dead s' \<and> length (sv_cbuf s') = maxPacket"
  using assms(1)
proof (cases rule: srv_step.cases)
  case (client_recv snap a m acts buf)
  obtain acts' buf' where "client_packet cr p snap a (recv_into (sv_cbuf s) m) = Some (acts', buf')"
    "length buf' = maxPacket" using client_packet_total [OF assms(4,5)] assms(3) unfolding srv_safe_def by blast
  with client_recv show ?thesis by simp
next
  case (client_panic snap a m)
  with client_packet_total [OF assms(4,5), of "sv_cbuf s" snap a m] assms(3) show ?thesis
    by (metis option.distinct(1) srv_safe_def)
next
  case (server_panic snap m)
  with server_packet_total [of "sv_sbuf s" snap m] assms(2) show ?thesis
    by (simp add: srv_loop_inv_def)
next
  case (server_reply_panic plain a k ks rnd)
  then obtain i where "srv_plain tr plain i" using assms(2) by (auto simp: srv_loop_inv_def)
  then obtain m rest where m: "EServer m \<in> set tr" "plain = gs (take maxPacket m) rest"
    by (auto simp: srv_plain_def)
  have "4 \<le> length m" using assms(3) m(1) by (simp add: srv_safe_def)
  then have "Obfuscate cr rnd p plain k \<noteq> None"
    using Obfuscate_gs [OF assms(4) _ _ _ server_reply_panic(5)] assms(5)
    by (simp add: m(2) room_ok_def maxPacket_def)
  with server_reply_panic show ?thesis by simp
next
  case gc_panic
  with assms(6) show ?thesis by (simp add: gcLoop_def NewTicker_def)
qed (use assms(3) in \<open>simp_all add: srv_safe_def\<close>)

interpretation safe: trace_inv "srv_step cr p" "newServer d"
    "\<lambda>e. \<forall>m. e = EServer m \<longrightarrow> 4 \<le> length m"
    "\<lambda>tr s. mac_sized cr \<and> room_ok p \<and> 0 < d \<longrightarrow> srv_safe tr s" for cr p d
proof (unfold_locales, goal_cases)
  case (2 tr s e s')
  have "0 < d \<Longrightarrow> 0 < ttl (sv_tbl s)" using srv_table [OF 2(1)] by (simp add: newTable_def)
  with 2(2,3) srv_safe_step [OF 2(4) loop.holds [OF 2(1)]] show ?case
    by (auto simp: srv_safe_def)
qed (simp add: newServer_def srv_safe_def)

section \<open>Properties\<close>

text \<open>
  C5. Replies reach the client they are for, through the whole proxy: whatever the
  interleaving of its loops, collections and new snapshots, a reply leaves for an address
  only as the obfuscated form of a datagram the WireGuard server sent, the address is the one
  that had last registered the datagram's receiver index when it was looked up, and it had
  sent a packet itself before.
\<close>

theorem reply_reaches_initiator:
  assumes "srv_trace cr p d tr s" "srv_step cr p s (EReply a out ok) s'"
    and "mac_sized cr" "room_ok p" "\<forall>m. EServer m \<in> set tr \<longrightarrow> 4 \<le> length m"
  shows "\<exists>m rest i k pre. EServer m \<in> set tr \<and> ReceiverIndex (gs (take maxPacket m) rest) = Some i \<and>
      out = pre @ obf_msg cr p k (take maxPacket m) \<and>
      length pre = nat (prefixFor p (head32 m)) \<and>
      (\<exists>tr1 tr2 cands np now ks. tr = tr1 @ ECall (OpTargets i cands np now) # tr2 \<and>
        fst (responseTargets (run (newTable d) (calls tr1)) i cands np now) = Some (a, ks) \<and> k \<in> set ks \<and>
        (\<exists>m'. EClient a m' \<in> set tr1) \<and> last_init i (calls tr1) = Some a)"
  using assms(2)
proof (rule srv_replyE)
  fix plain k ks rnd out'
  assume h: "out = view out'" "sv_sgor s = SSend plain a (k # ks)" "\<And>n. length (rnd n) = n"
    "Obfuscate cr rnd p plain k = Some out'"
  obtain i ks0 where i: "srv_plain tr plain i" "looked_up d tr i a ks0" "k \<in> set ks0"
    using loop.holds [OF assms(1)] h(2) by (auto simp: srv_loop_inv_def)
  then obtain m rest where m: "EServer m \<in> set tr" "plain = gs (take maxPacket m) rest"
    "ReceiverIndex (gs (take maxPacket m) rest) = Some i"
    by (auto simp: srv_plain_def)
  have "4 \<le> length m" using assms(5) m(1) by blast
  then have "out = rnd (nat (prefixFor p (head32 m))) @ obf_msg cr p k (take maxPacket m)"
    using Obfuscate_gs [OF assms(3) _ _ _ h(3)] assms(4) h(1,4)
    by (auto simp: m(2) room_ok_def maxPacket_def gs_simps)
  with m i h(3) show ?thesis unfolding looked_up_def by blast
qed

text \<open>
  C40. The server-mode proxy never panics, in any interleaving and whatever its clients send,
  when the prefixes are not negative and leave room for an index in the buffer, the TTL is
  positive and the WireGuard server's own datagrams have a header.
\<close>

theorem server_never_panics:
  assumes "srv_trace cr p d tr s" "mac_sized cr" "room_ok p" "0 < d"
    and "\<forall>m. EServer m \<in> set tr \<longrightarrow> 4 \<le> length m"
  shows "\<not> sv_dead s"
  using safe.holds [OF assms(1)] assms(2-5) unfolding srv_safe_def by blast

section \<open>Wire packets in the client loop\<close>

text \<open>An obfuscated message is forwarded as it was sent; its bytes stay in the buffer.\<close>

lemma client_packet_wire:
  assumes "mac_sized cr" "sizes_ok p" "4 \<le> length m"
    and "head32 m \<in> {TypeInit, TypeResponse, TypeCookie, TypeTransport}"
    and "length pre = nat (prefixFor p (head32 m))" "wire = pre @ obf_msg cr p pub m"
    and "unambiguous p (head32 m) wire" "mac1_valid cr (sn_ServerPub snap) m"
    and "length wire \<le> length buf"
  shows "client_packet cr p snap a (recv_into buf wire) =
    map_option (\<lambda>acts. (acts @ [CForward m], pre @ m @ drop (length wire) buf))
      (client_acts cr snap a (gs m (drop (length wire) buf)) (head32 m))"
proof -
  let ?rest = "drop (length wire) buf"
  have l: "length m + length pre = length wire"
    using assms(1,3,6) by (simp add: length_obf_msg)
  have "recv_into buf wire = gs wire ?rest"
    using assms(9) by (simp add: recv_into_gs)
  moreover have "Deobfuscate cr p (gs wire ?rest) (sn_ServerPub snap) = Some (Some (gs m ?rest, head32 m))"
    unfolding assms(6) using assms by (intro Deobfuscate_wire) simp_all
  moreover have "take (length pre) wire = pre" by (simp add: assms(6))
  ultimately show ?thesis
    by (cases "client_acts cr snap a (gs m ?rest) (head32 m)")
       (simp_all add: client_packet_def buf_after_gs [OF l] gs_sel)
qed

lemma SenderIndex_gs: "8 \<le> length m \<Longrightarrow> SenderIndex (gs m rest) = Some (head32 (drop 4 m))"
  using SenderIndex_arr [of "gs m rest"] by (simp add: gs_sel head32_append)

lemma client_acts_init:
  assumes "SenderIndex (gs m rest) = Some i"
  shows "\<exists>keys. client_acts cr snap a (gs m rest) TypeInit = Some (CInit a i # keys) \<and>
    (length m < 88 \<longrightarrow> keys = [])"
  by (simp add: client_acts_def assms gs_sel ClientPubFromInit_short split: option.split)

text \<open>A header alone, behind a prefix.\<close>

lemma Deobfuscate_header:
  assumes "sizes_ok p" "mac_sized cr" "length pre = nat (pS1 p)"
    and "head32 (pre @ le32_bytes (pH1 p)) \<notin> {pH3 p, pH4 p}"
  shows "Deobfuscate cr p (gs (pre @ le32_bytes (pH1 p)) rest) pub =
    Some (Some (gs (le32_bytes TypeInit) rest, TypeInit))"
proof -
  have "0 \<le> pS1 p" using assms(1) by (simp add: sizes_ok_def)
  moreover have "head32 (le32_bytes (pH1 p)) = pH1 p"
    using head32_le32_bytes [of "pH1 p" "[]"] by simp
  ultimately show ?thesis
    using assms
    by (simp add: Deobfuscate_gs classify_gs remac_def MAC1Offset_def wg_types wg_sizes retype_def)
qed

text \<open>
  C35. A truncated initiation takes over another client's index: the code reads the sender
  index of a message it has not checked the length of, so behind a datagram of a prefix and
  the header alone it reads what the packet before left in the buffer. After the initiation
  \<open>m\<close> of any client, such a datagram from \<open>b\<close> registers the index of \<open>m\<close> for \<open>b\<close>, and from
  then on the table routes that index to \<open>b\<close>.
\<close>

theorem short_init_steals_index:
  assumes "mac_sized cr" "room_ok p" "8 \<le> length m" "head32 m = TypeInit"
    and "length pre = nat (pS1 p)" "wire = pre @ obf_msg cr p pub m" "length wire \<le> maxPacket"
    and "unambiguous p TypeInit wire" "mac1_valid cr (sn_ServerPub snap) m"
    and "length buf = maxPacket" "length pre' = nat (pS1 p)"
    and "head32 (pre' @ le32_bytes (pH1 p)) \<notin> {pH3 p, pH4 p}"
  shows "\<exists>acts buf' buf''.
    client_packet cr p snap a (recv_into buf wire) = Some (acts, buf') \<and>
    client_packet cr p snap b (recv_into buf' (pre' @ le32_bytes (pH1 p))) =
      Some ([CInit b (head32 (drop 4 m)), CForward (le32_bytes TypeInit)], buf'') \<and>
    (wf_table t \<longrightarrow> route (exec t (OpInit b (head32 (drop 4 m)) now)) (head32 (drop 4 m)) = Some b)"
proof -
  have ok: "sizes_ok p" using assms(2) by (simp add: room_ok_def)
  let ?rest = "drop (length wire) buf" and ?w = "pre' @ le32_bytes (pH1 p)"
  let ?buf' = "pre @ m @ ?rest"
  have pfx: "prefixFor p TypeInit = pS1 p" by (simp add: prefixFor_def)
  obtain keys where keys: "client_acts cr snap a (gs m ?rest) TypeInit = Some (CInit a (head32 (drop 4 m)) # keys)"
    using client_acts_init [OF SenderIndex_gs [OF assms(3)]] by blast
  have 1: "client_packet cr p snap a (recv_into buf wire) =
      Some (CInit a (head32 (drop 4 m)) # keys @ [CForward m], ?buf')"
    using client_packet_wire [OF assms(1) ok _ _ _ assms(6), of snap buf a] assms keys
    by (simp add: pfx)
  have len: "length ?w \<le> length ?buf'" using assms(3,5,11) by simp
  then have r: "recv_into ?buf' ?w = gs ?w (drop (length ?w) ?buf')"
    by (simp add: recv_into_gs)
  have d: "drop (length ?w) ?buf' = drop 4 (m @ ?rest)" using assms(5,11) by simp
  have i: "SenderIndex (gs (le32_bytes TypeInit) (drop 4 (m @ ?rest))) = Some (head32 (drop 4 m))"
    using SenderIndex_arr [of "gs (le32_bytes TypeInit) (drop 4 (m @ ?rest))"] assms(3)
    by (simp add: gs_sel head32_append)
  have "client_acts cr snap b (gs (le32_bytes TypeInit) (drop 4 (m @ ?rest))) TypeInit =
      Some [CInit b (head32 (drop 4 m))]"
    using client_acts_init [OF i, of cr snap b] by auto
  then have "\<exists>buf''. client_packet cr p snap b (recv_into ?buf' ?w) =
      Some ([CInit b (head32 (drop 4 m)), CForward (le32_bytes TypeInit)], buf'')"
    unfolding r d client_packet_def
    using Deobfuscate_header [OF ok assms(1,11,12)] by (simp add: gs_sel)
  with 1 route_clientInit [of t] show ?thesis by auto
qed

section \<open>A concrete trace\<close>

text \<open>A client's initiation is received, registered and forwarded; a transport message of the
  WireGuard server is looked up.\<close>

definition demo_snap :: Snapshot where
  "demo_snap = \<lparr>sn_ServerPub = replicate 32 5, sn_ServerPriv = zero_key, sn_WGListenPort = 0,
     sn_ClientPubs = [], sn_Upstream = None\<rparr>"

definition demo_data :: bytes where
  "demo_data = le32_bytes 4 @ le32_bytes 0x07070707 @ [1, 2, 3, 4]"

lemma demo_data_facts: "length demo_data = 12" "head32 demo_data = 4" "head32 (drop 4 demo_data) = 0x07070707"
  by (simp_all add: demo_data_def)

definition demo_events :: "event list" where
  "demo_events = [ESnap demo_snap, EClient ''a:1'' demo_wire, ECall (OpInit ''a:1'' 0x07070707 0),
     EForward demo_init True, EServer demo_data, ECall (OpTargets 0x07070707 [] False 1)]"

lemma demo_room [simp]: "room_ok demo_params"
  by (simp add: room_ok_def) (simp add: demo_params_def)

lemma demo_trace:
  obtains s rest where "srv_trace demo_crypto demo_params 10 demo_events s"
    "sv_sgor s = SSend (gs demo_data rest) ''a:1'' [zero_key]" "\<not> sv_dead s"
proof -
  let ?cr = demo_crypto and ?p = demo_params and ?s0 = "newServer 10"
  let ?s1 = "?s0\<lparr>sv_snap := Some demo_snap\<rparr>"
  have t1: "srv_trace ?cr ?p 10 ([] @ [ESnap demo_snap]) ?s1"
    by (intro srv_snoc [OF srv_nil] srv_step.snapshot) (simp add: newServer_def)
  obtain buf where c: "client_packet ?cr ?p demo_snap ''a:1'' (recv_into (sv_cbuf ?s1) demo_wire) =
      Some ([CInit ''a:1'' 0x07070707, CForward demo_init], buf)"
    using client_packet_wire [OF demo_crypto_sized demo_params_ok, of demo_init "replicate 16 9" demo_wire
        "replicate 32 6" demo_snap "replicate maxPacket 0" "''a:1''"]
      demo_init_facts demo_wire_facts
    by (simp add: demo_wire_def [symmetric] demo_snap_def newServer_def prefixFor_def maxPacket_def
        client_acts_def SenderIndex_gs) (simp add: demo_params_def)
  let ?s2 = "?s1\<lparr>sv_cbuf := buf, sv_cacts := [CInit ''a:1'' 0x07070707, CForward demo_init]\<rparr>"
  let ?t3 = "exec (newTable 10) (OpInit ''a:1'' 0x07070707 0)"
  let ?s3 = "?s2\<lparr>sv_tbl := ?t3, sv_cacts := [CForward demo_init]\<rparr>"
  let ?s4 = "?s3\<lparr>sv_cacts := []\<rparr>"
  have "srv_step ?cr ?p ?s1 (EClient ''a:1'' demo_wire) ?s2"
    by (rule srv_step.client_recv [OF _ _ _ _ c]) (simp_all add: newServer_def)
  note t2 = srv_snoc [OF t1 this]
  have "srv_step ?cr ?p ?s2 (ECall (OpInit ''a:1'' 0x07070707 0)) ?s3"
    using srv_step.client_call [of ?s2 "CInit ''a:1'' 0x07070707" "[CForward demo_init]" 0
        "OpInit ''a:1'' 0x07070707 0" ?cr ?p]
    by (simp add: newServer_def)
  note t3 = srv_snoc [OF t2 this]
  have "srv_step ?cr ?p ?s3 (EForward demo_init True) ?s4"
    using srv_step.client_forward [of ?s3 demo_init "[]" ?cr ?p True]
    by (simp add: newServer_def)
  note t4 = srv_snoc [OF t3 this]
  define rest where "rest = drop (length demo_data) (replicate maxPacket (0 :: byte))"
  have r: "recv_into (sv_sbuf ?s4) demo_data = gs demo_data rest"
    by (simp add: recv_into_gs newServer_def rest_def demo_data_def maxPacket_def)
  let ?g = "SLookup (gs demo_data rest) 0x07070707 False []"
  have g: "server_packet demo_snap (recv_into (sv_sbuf ?s4) demo_data) = Some ?g"
    unfolding server_packet_def r
    by (simp add: Type_gs ReceiverIndex_gs demo_data_facts wg_types demo_snap_def head32_append)
  let ?s5 = "?s4\<lparr>sv_sbuf := arr (recv_into (sv_sbuf ?s4) demo_data), sv_sgor := ?g\<rparr>"
  have "srv_step ?cr ?p ?s4 (EServer demo_data) ?s5"
    by (rule srv_step.server_recv [OF _ _ _ _ g]) (simp_all add: newServer_def)
  note t5 = srv_snoc [OF t4 this]
  obtain t where t: "responseTargets (sv_tbl ?s5) 0x07070707 [] False 1 = (Some (''a:1'', [zero_key]), t)"
    by (simp add: newTable_def clientInit_def getLocked_def upd_def responseTargets_def)
  let ?s6 = "?s5\<lparr>sv_tbl := t, sv_sgor := send_to (gs demo_data rest) (Some (''a:1'', [zero_key]))\<rparr>"
  have "srv_step ?cr ?p ?s5 (ECall (OpTargets 0x07070707 [] False 1)) ?s6"
    by (rule srv_step.server_lookup [OF _ _ t]) (simp_all add: newServer_def)
  note t6 = srv_snoc [OF t5 this]
  from t6 show thesis
    by (intro that [of ?s6 rest])
       (simp_all add: demo_events_def send_to_def next_send_def newServer_def)
qed

theorem reply_reaches_initiator_witness:
  "\<exists>m i tr1 tr2 cands np now. demo_events = tr1 @ ECall (OpTargets i cands np now) # tr2 \<and>
     EServer m \<in> set demo_events \<and> last_init i (calls tr1) = Some ''a:1''"
proof -
  obtain s rest where s: "srv_trace demo_crypto demo_params 10 demo_events s"
    "sv_sgor s = SSend (gs demo_data rest) ''a:1'' [zero_key]" "\<not> sv_dead s" using demo_trace .
  obtain out where "Obfuscate demo_crypto (\<lambda>n. replicate n 0) demo_params (gs demo_data rest) zero_key = Some out"
    using Obfuscate_gs [OF demo_crypto_sized demo_params_ok, of demo_data "\<lambda>n. replicate n 0" rest zero_key]
    by (simp add: demo_data_def)
  from srv_step.server_reply [OF s(3,2) _ this, of True]
  have step: "srv_step demo_crypto demo_params s (EReply ''a:1'' (view out) True)
      (s\<lparr>sv_sgor := next_send (gs demo_data rest) ''a:1'' []\<rparr>)" by simp
  have "\<forall>m. EServer m \<in> set demo_events \<longrightarrow> 4 \<le> length m"
    by (simp add: demo_events_def demo_data_def)
  from reply_reaches_initiator [OF s(1) step demo_crypto_sized demo_room this]
  show ?thesis by blast
qed

theorem server_never_panics_witness:
  "\<exists>s. srv_trace demo_crypto demo_params 10 demo_events s \<and> \<not> sv_dead s"
proof -
  obtain s where s: "srv_trace demo_crypto demo_params 10 demo_events s" using demo_trace .
  have "\<forall>m. EServer m \<in> set demo_events \<longrightarrow> 4 \<le> length m"
    by (simp add: demo_events_def demo_data_def)
  with server_never_panics [OF s demo_crypto_sized demo_room] s show ?thesis by auto
qed

theorem short_init_steals_index_witness:
  "\<exists>buf' buf'' acts. client_packet demo_crypto demo_params demo_snap ''a:1''
       (recv_into (replicate maxPacket 0) demo_wire) = Some (acts, buf') \<and>
     client_packet demo_crypto demo_params demo_snap ''b:2''
       (recv_into buf' (replicate 16 0 @ le32_bytes (pH1 demo_params))) =
       Some ([CInit ''b:2'' 0x07070707, CForward (le32_bytes 1)], buf'')"
proof -
  have "head32 (replicate 16 0 @ le32_bytes (pH1 demo_params)) \<notin> {pH3 demo_params, pH4 demo_params}"
    by (simp add: head32_def le32_of_def demo_params_def nth_append)
  moreover have "nat (pS1 demo_params) = 16" by (simp add: demo_params_def)
  moreover have "mac1_valid demo_crypto (sn_ServerPub demo_snap) demo_init"
    by (simp add: demo_snap_def demo_init_facts)
  ultimately have "\<exists>acts buf' buf''. client_packet demo_crypto demo_params demo_snap ''a:1''
       (recv_into (replicate maxPacket 0) demo_wire) = Some (acts, buf') \<and>
     client_packet demo_crypto demo_params demo_snap ''b:2''
       (recv_into buf' (replicate 16 0 @ le32_bytes (pH1 demo_params))) =
       Some ([CInit ''b:2'' (head32 (drop 4 demo_init)), CForward (le32_bytes TypeInit)], buf'') \<and>
     (wf_table (newTable 10) \<longrightarrow> route (exec (newTable 10) (OpInit ''b:2'' (head32 (drop 4 demo_init)) 0))
        (head32 (drop 4 demo_init)) = Some ''b:2'')"
    using demo_wire_facts
    by (intro short_init_steals_index [OF demo_crypto_sized demo_room, of demo_init "replicate 16 9" demo_wire
        "replicate 32 6"]) (simp_all add: demo_wire_def [symmetric] demo_init_facts maxPacket_def)
  then show ?thesis unfolding demo_init_facts wg_types by blast
qed

text \<open>Validation looks at neither the TTL, the poll interval nor the prefix sizes.\<close>

lemma Validate_blind:
  "Validate (c\<lparr>c_SessionTTL := x\<rparr>) = Validate c" "Validate (c\<lparr>c_PollInterval := x\<rparr>) = Validate c"
  "Validate (c\<lparr>c_S1 := x\<rparr>) = Validate c" "Validate (c\<lparr>c_S2 := x\<rparr>) = Validate c"
  by (simp_all add: Validate_def validate_def validateRouter_def validateService_def validateCommon_def)

definition with_ttl :: "int \<Rightarrow> Settings \<Rightarrow> Settings" where
  "with_ttl n s = s\<lparr>st_Server := (st_Server s)\<lparr>sv_SessionTTLSec := n\<rparr>\<rparr>"

lemma ToConfig_with_ttl:
  assumes "st_Mode s \<noteq> ModeClient" "n \<noteq> 0"
  shows "ToConfig (with_ttl n s) = (ToConfig s)\<lparr>c_SessionTTL := seconds n\<rparr>"
  using assms
  by (simp add: ToConfig_def withDefaults_def Let_def fillServer_def fillObfuscation_def or_int_def
      or_str_def ModeClient_def defMode_def ModeServer_def with_ttl_def newConfig_def)

lemma seconds_id: "- (2 ^ 33) < n \<Longrightarrow> n < 2 ^ 33 \<Longrightarrow> seconds n = n * 1000000000"
  by (simp add: seconds_def)

text \<open>
  C36. A negative session TTL is accepted and crashes the proxy: no validation looks at it
  (whatever it finds for a configuration it finds for the one with another TTL), only zero
  is replaced by the default, and \<open>gcLoop\<close> hands the value to \<open>time.NewTicker\<close>, which panics on it
  and takes the process down before a single packet.
\<close>

theorem negative_ttl_crashes:
  assumes "st_Mode s \<noteq> ModeClient" "n < 0" "- (2 ^ 33) < n"
  shows "Validate (ToConfig (with_ttl n s)) = Validate (ToConfig s) \<and>
    (\<exists>p d t. New (ToConfig (with_ttl n s)) = ServerRunner p d \<and> srv_trace cr p d [EPanic] t \<and> sv_dead t)"
proof
  let ?c = "ToConfig (with_ttl n s)" and ?s0 = "newServer (n * 1000000000)"
  have c: "?c = (ToConfig s)\<lparr>c_SessionTTL := n * 1000000000\<rparr>"
    using ToConfig_with_ttl [OF assms(1), of n] seconds_id [OF assms(3)] assms(2) by simp
  then show "Validate ?c = Validate (ToConfig s)" by (simp add: Validate_blind)
  have "c_Mode (ToConfig s) \<noteq> ModeClient"
    using assms(1) by (auto simp: ToConfig_def withDefaults_def Let_def or_str_def newConfig_def
        fillServer_def fillObfuscation_def defMode_def ModeServer_def ModeClient_def)
  then have n: "New ?c = ServerRunner (params_of ?c) (n * 1000000000)"
    by (simp add: New_def c)
  have "srv_step cr (params_of ?c) ?s0 EPanic (?s0\<lparr>sv_dead := True\<rparr>)"
    using assms(2) by (intro srv_step.gc_panic) (simp_all add: newServer_def gcLoop_def NewTicker_def newTable_def)
  from srv_snoc [OF srv_nil this] n
  show "\<exists>p d t. New ?c = ServerRunner p d \<and> srv_trace cr p d [EPanic] t \<and> sv_dead t"
    by (intro exI [of _ "params_of ?c"] exI [of _ "n * 1000000000"] exI [of _ "?s0\<lparr>sv_dead := True\<rparr>"]) simp
qed

definition demo_service :: Settings where
  "demo_service = zeroSettings\<lparr>st_Server := zeroServer\<lparr>sv_RemoteAddr := ''h'', sv_RemotePort := 1,
     sv_Router := zeroRouter\<lparr>rs_Address := ''r'', rs_Password := ''p'', rs_WGIface := ''w''\<rparr>\<rparr>\<rparr>"

lemma demo_service_valid: "Validate (ToConfig demo_service) = None" "st_Mode demo_service \<noteq> ModeClient"
  by (simp_all add: Validate_def validate_def validateService_def validateCommon_def
      validateRouter_def ToConfig_def withDefaults_def demo_service_def
      zeroSettings_def zeroServer_def or_str_def defMode_def ModeServer_def ModeClient_def fillServer_def
      fillObfuscation_def newConfig_def routerConn_def defaultRouter_def zeroRouter_def zeroObfuscation_def
      defaultObfuscation_def or_int_def defJc_def defJmin_def defJmax_def JoinHostPort_def)

theorem negative_ttl_crashes_witness:
  "Validate (ToConfig (with_ttl (-1) demo_service)) = None \<and>
   (\<exists>p d t. New (ToConfig (with_ttl (-1) demo_service)) = ServerRunner p d \<and>
      srv_trace demo_crypto p d [EPanic] t)"
  using negative_ttl_crashes [of demo_service "-1" demo_crypto] demo_service_valid by auto

end
