(* ===== verification/Server_Keys.thy ===== *)
theory Server_Keys
  imports Proxy_Server
begin

text \<open>
  The keys the server-mode proxy signs its replies for, through all of its loops: where the key in
  the MAC1 of a reply can come from.
\<close>

section \<open>Where keys come from\<close>

text \<open>The key an initiation from \<open>a\<close> was decrypted to, under a snapshot with the server's
  private key.\<close>

definition decrypted :: "xcrypto \<Rightarrow> Params \<Rightarrow> event list \<Rightarrow> addr \<Rightarrow> key \<Rightarrow> bool" where
  "decrypted cr p tr a k \<longleftrightarrow>
     (\<exists>m n rest snap plain. EClient a m \<in> set tr \<and> ESnap snap \<in> set tr \<and> sn_ServerPriv snap \<noteq> zero_key \<and>
        Deobfuscate cr p (gs (take n m) rest) (sn_ServerPub snap) = Some (Some (plain, TypeInit)) \<and>
        ClientPubFromInit cr (view plain) (sn_ServerPriv snap) (sn_ServerPub snap) = Some k)"

text \<open>A candidate of a delivered snapshot (the zero key if it has none), and a key a handshake
  response for \<open>a\<close> may be signed for.\<close>

definition candidate :: "event list \<Rightarrow> key \<Rightarrow> bool" where
  "candidate tr k \<longleftrightarrow>
     (\<exists>snap. ESnap snap \<in> set tr \<and> k \<in> set (if sn_ClientPubs snap = [] then [zero_key] else sn_ClientPubs snap))"

definition key_for :: "xcrypto \<Rightarrow> Params \<Rightarrow> event list \<Rightarrow> addr \<Rightarrow> gslice \<Rightarrow> key \<Rightarrow> bool" where
  "key_for cr p tr a plain k \<longleftrightarrow>
     (if Type plain = Some TypeResponse
      then decrypted cr p tr a k \<or> candidate tr k else k = zero_key)"

definition key_inv :: "xcrypto \<Rightarrow> Params \<Rightarrow> event list \<Rightarrow> srv \<Rightarrow> bool" where
  "key_inv cr p tr s \<longleftrightarrow>
     (\<forall>snap. sv_snap s = Some snap \<longrightarrow> ESnap snap \<in> set tr) \<and>
     (\<forall>a k. CSetPub a k \<in> set (sv_cacts s) \<longrightarrow> decrypted cr p tr a k) \<and>
     (\<forall>a k. ECall (OpSetPub a k) \<in> set tr \<longrightarrow> decrypted cr p tr a k) \<and>
     (\<forall>plain i np cands. sv_sgor s = SLookup plain i np cands \<longrightarrow>
        np = (Type plain = Some TypeResponse) \<and> (\<exists>snap. ESnap snap \<in> set tr \<and> cands = sn_ClientPubs snap)) \<and>
     (\<forall>plain a ks. sv_sgor s = SSend plain a ks \<longrightarrow> (\<forall>k \<in> set ks. key_for cr p tr a plain k))"

lemma decrypted_mono: "decrypted cr p tr a k \<Longrightarrow> decrypted cr p (tr @ tr') a k"
  unfolding decrypted_def by fastforce

lemma candidate_mono: "candidate tr k \<Longrightarrow> candidate (tr @ tr') k"
  by (auto simp: candidate_def)

lemma key_for_mono: "key_for cr p tr a plain k \<Longrightarrow> key_for cr p (tr @ tr') a plain k"
  by (auto simp: key_for_def intro: decrypted_mono candidate_mono)

lemma client_packet_setPub:
  assumes "client_packet cr p snap a (recv_into buf m) = Some (acts, b)" "CSetPub a' k \<in> set acts"
    and "EClient a m \<in> set tr" "ESnap snap \<in> set tr"
  shows "decrypted cr p tr a' k"
proof -
  obtain plain t acts' where d: "Deobfuscate cr p (recv_into buf m) (sn_ServerPub snap) = Some (Some (plain, t))"
    "client_acts cr snap a plain t = Some acts'" "CSetPub a' k \<in> set acts'"
    using assms(1,2) by (auto simp: client_packet_def split: option.splits prod.splits bind_splits)
  then have k: "a' = a" "t = TypeInit" "sn_ServerPriv snap \<noteq> zero_key"
    "ClientPubFromInit cr (view plain) (sn_ServerPriv snap) (sn_ServerPub snap) = Some k"
    by (auto simp: client_acts_def split: if_splits option.splits bind_splits)
  show ?thesis
    unfolding decrypted_def
    by (intro exI [of _ m] exI [of _ "length buf"] exI [of _ "drop (length (take (length buf) m)) buf"]
        exI [of _ snap] exI [of _ plain] conjI) (use assms(3,4) k d(1) in \<open>simp_all add: recv_into_gs\<close>)
qed

text \<open>What the loops hold stays right when the trace grows.\<close>

lemma key_inv_mono:
  assumes "key_inv cr p tr s" "\<forall>a k. e = ECall (OpSetPub a k) \<longrightarrow> decrypted cr p tr a k"
  shows "key_inv cr p (tr @ [e]) s"
  using assms unfolding key_inv_def
  by (elim conjE) (intro conjI; auto intro: decrypted_mono key_for_mono)

lemma targets_keys:
  assumes "fst (responseTargets (run (newTable d) (calls tr)) i cands np now) = Some (a, ks)" "k \<in> set ks"
    and "\<forall>a k. ECall (OpSetPub a k) \<in> set tr \<longrightarrow> decrypted cr p tr a k"
    and "np = (Type plain = Some TypeResponse)" "ESnap snap \<in> set tr" "cands = sn_ClientPubs snap"
  shows "key_for cr p tr a plain k"
proof (cases np)
  case True
  from reply_keys [OF assms(1)] True
  consider k' where "ks = [k']" "OpSetPub a k' \<in> set (calls tr)" | "ks = (if cands = [] then [zero_key] else cands)"
    by auto
  then show ?thesis
  proof cases
    case 1
    with assms(2,3) calls_mem have "decrypted cr p tr a k" by fastforce
    with True assms(4) show ?thesis by (simp add: key_for_def)
  next
    case 2
    then have "candidate tr k" unfolding candidate_def using assms(2,5,6) by blast
    with True assms(4) show ?thesis by (simp add: key_for_def)
  qed
next
  case False
  with reply_keys [OF assms(1)] assms(2,4) show ?thesis by (simp add: key_for_def)
qed

interpretation keys: trace_inv "srv_step cr p" "newServer d" "\<lambda>_. True" "key_inv cr p" for cr p d
proof (unfold_locales, goal_cases)
  case (2 tr s e s')
  have grown: "key_inv cr p (tr @ [e]) s" if "\<forall>a k. e = ECall (OpSetPub a k) \<longrightarrow> decrypted cr p tr a k"
    using 2(2) that by (rule key_inv_mono)
  from 2(4) show ?case
  proof (cases rule: srv_step.cases)
    case (client_recv snap a m acts buf)
    have "ESnap snap \<in> set tr" using 2(2) client_recv(6) by (simp add: key_inv_def)
    then have "decrypted cr p (tr @ [e]) a' k" if "CSetPub a' k \<in> set acts" for a' k
      using client_recv(1) by (intro client_packet_setPub [OF client_recv(7) that]) simp_all
    then show ?thesis using grown client_recv(1,2) by (simp add: key_inv_def)
  next
    case (client_call act acts now x)
    have "decrypted cr p tr a k" if "x = OpSetPub a k" for a k
      using that client_call(4,5) 2(2) by (cases act) (auto simp: key_inv_def)
    then show ?thesis using grown client_call(1,2,4) by (simp add: key_inv_def)
  next
    case (client_forward m acts ok)
    then show ?thesis using grown by (simp add: key_inv_def)
  next
    case (server_recv snap m g)
    have "ESnap snap \<in> set tr" using 2(2) server_recv(6) by (simp add: key_inv_def)
    moreover obtain i where "g = SLookup (recv_into (sv_sbuf s) m) i
        (Type (recv_into (sv_sbuf s) m) = Some TypeResponse) (sn_ClientPubs snap)"
      using server_recv(7) by (auto simp: server_packet_def split: bind_splits)
    ultimately show ?thesis using grown server_recv(1,2) by (auto simp: key_inv_def)
  next
    case (server_lookup plain i np cands now r t)
    obtain snap where c: "np = (Type plain = Some TypeResponse)" "ESnap snap \<in> set tr" "cands = sn_ClientPubs snap"
      using 2(2) server_lookup(4) by (auto simp: key_inv_def)
    have "key_for cr p (tr @ [e]) a plain k" if "r = Some (a, ks)" "k \<in> set ks" for a ks k
    proof (rule key_for_mono, rule targets_keys [OF _ that(2) _ c])
      show "fst (responseTargets (run (newTable d) (calls tr)) i cands np now) = Some (a, ks)"
        using server_lookup(5) that(1) srv_table [OF 2(1)] by simp
    qed (use 2(2) in \<open>simp add: key_inv_def\<close>)
    then show ?thesis using grown server_lookup(1,2)
      by (cases r) (auto simp: key_inv_def send_to_def next_send_def split: if_splits)
  next
    case (server_reply plain a k ks rnd out ok)
    then show ?thesis using grown by (auto simp: key_inv_def next_send_def split: if_splits)
  next
    case (snapshot snap)
    then show ?thesis using grown by (auto simp: key_inv_def)
  qed (use grown in \<open>simp_all add: key_inv_def\<close>)
qed (simp add: key_inv_def newServer_def)

section \<open>Properties\<close>

text \<open>
  C22. The keys replies are signed for, through all loops of the server-mode proxy and in every
  interleaving: a handshake response sent to an address carries a MAC1 for a key that an
  initiation from that very address was decrypted to, or for a candidate key of a snapshot the
  poller delivered (the zero key if it lists none); every other message is passed on under the
  zero key. What is sent is the obfuscated form, under that key, of a datagram of the WireGuard
  server. A key decrypted from one address is never used for another.
\<close>

theorem reply_key_origin:
  assumes "srv_trace cr p d tr s" "srv_step cr p s (EReply a out ok) s'"
  shows "\<exists>plain i k rnd o'. srv_plain tr plain i \<and> Obfuscate cr rnd p plain k = Some o' \<and> out = view o' \<and>
    (if Type plain = Some TypeResponse then decrypted cr p tr a k \<or> candidate tr k else k = zero_key)"
  using assms(2)
proof (rule srv_replyE)
  fix plain k ks rnd o'
  assume h: "out = view o'" "sv_sgor s = SSend plain a (k # ks)" "Obfuscate cr rnd p plain k = Some o'"
  have "key_for cr p tr a plain k" using keys.holds [OF assms(1)] h(2) by (simp add: key_inv_def)
  moreover obtain i where "srv_plain tr plain i"
    using loop.holds [OF assms(1)] h(2) by (auto simp: srv_loop_inv_def)
  ultimately show ?thesis using h(1,3)
    by (intro exI [of _ plain] exI [of _ i] exI [of _ k] exI [of _ rnd] exI [of _ o']) (simp add: key_for_def)
qed

theorem reply_key_origin_witness:
  "\<exists>plain i k rnd o'. srv_plain demo_events plain i \<and> Obfuscate demo_crypto rnd demo_params plain k = Some o' \<and>
     (decrypted demo_crypto demo_params demo_events ''a:1'' k \<or> candidate demo_events k \<or> k = zero_key)"
proof -
  obtain s rest where s: "srv_trace demo_crypto demo_params 10 demo_events s"
    "sv_sgor s = SSend (gs demo_data rest) ''a:1'' [zero_key]" "\<not> sv_dead s" using demo_trace .
  obtain out where "Obfuscate demo_crypto (\<lambda>n. replicate n 0) demo_params (gs demo_data rest) zero_key = Some out"
    using Obfuscate_gs [OF demo_crypto_sized demo_params_ok, of demo_data "\<lambda>n. replicate n 0" rest zero_key]
    by (simp add: demo_data_def)
  from srv_step.server_reply [OF s(3,2) _ this, of True]
  have "srv_step demo_crypto demo_params s (EReply ''a:1'' (view out) True)
      (s\<lparr>sv_sgor := next_send (gs demo_data rest) ''a:1'' []\<rparr>)" by simp
  from reply_key_origin [OF s(1) this] show ?thesis by (metis (no_types, lifting))
qed

end
