(* ===== verification/Proxy_Client.thy ===== *)
theory Proxy_Client
  imports Proxy_Server
begin

text \<open>
  Package \<open>proxy\<close>, file \<open>client.go\<close>: the client-mode proxy. One loop obfuscates what the
  router's WireGuard socket sends and passes it to the upstream of the current snapshot, the
  other takes the obfuscation off what comes back and returns it to that socket. Here the handling
  of one packet is one step (\<open>Client_System\<close> interleaves the loops). The random bytes, the draws for the junk packets and the
  outcomes of the socket writes of a step are its environment.
\<close>

record env =
  en_rnd :: "nat \<Rightarrow> bytes"             \<comment> \<open>\<open>crand.Read\<close> in \<open>Obfuscate\<close>\<close>
  en_intN :: "nat \<Rightarrow> int \<Rightarrow> int"        \<comment> \<open>\<open>mrand.IntN\<close> of the \<open>i\<close>-th junk packet\<close>
  en_junk :: "nat \<Rightarrow> nat \<Rightarrow> bytes"      \<comment> \<open>\<open>crand.Read\<close> of the \<open>i\<close>-th junk packet\<close>
  en_ok :: "nat \<Rightarrow> bool"               \<comment> \<open>whether the \<open>i\<close>-th junk packet could be sent\<close>

record client =
  cx_snap :: "Snapshot option"
  cx_routerSrc :: "addr option"
  cx_lastLog :: "int option"           \<comment> \<open>\<open>None\<close>: the zero \<open>time.Time\<close>\<close>
  cx_rbuf :: bytes                     \<comment> \<open>the buffers of the two loops\<close>
  cx_abuf :: bytes

definition newClient :: client where
  "newClient = \<lparr>cx_snap = None, cx_routerSrc = None, cx_lastLog = None,
     cx_rbuf = replicate maxPacket 0, cx_abuf = replicate maxPacket 0\<rparr>"

text \<open>The sockets \<open>Run\<close> opens: the one for the router and one for the upstream on any port
  (\<open>anyPort\<close>).\<close>

definition client_Run :: "netlib \<Rightarrow> addr \<Rightarrow> Config \<Rightarrow> gerror option \<times> socket list" where
  "client_Run nl anyPort c =
     (case nl_resolve nl (c_Listen c) of
        None \<Rightarrow> (Some (Msg ''listen address''), [])
      | Some l \<Rightarrow>
          if \<not> nl_listen nl l then (Some (Msg (''listen '' @ c_Listen c)), [])
          else if \<not> nl_listen nl anyPort then (Some (Msg ''listen awg socket''), [Listening l])
          else (None, [Listening l, Listening anyPort]))"

text \<open>What a step gives off: a datagram to the upstream, one to the router, a line in the log.\<close>

datatype cout =
    ToAwg addrport bytes
  | ToRouter addr bytes
  | Warned int

definition fiveSeconds :: int where "fiveSeconds = 5000000000"

definition warnRateLimited :: "client \<Rightarrow> int \<Rightarrow> cout list \<times> client" where
  "warnRateLimited c now =
     (if since now (cx_lastLog c) < fiveSeconds then ([], c)
      else ([Warned now], c\<lparr>cx_lastLog := Some now\<rparr>))"

text \<open>The junk loop: it stops at the first packet that could not be sent.\<close>

fun send_junk :: "(nat \<Rightarrow> bool) \<Rightarrow> addrport \<Rightarrow> nat \<Rightarrow> bytes list \<Rightarrow> cout list" where
  "send_junk ok a i [] = []"
| "send_junk ok a i (j # js) = ToAwg a j # (if ok i then send_junk ok a (i + 1) js else [])"

definition upstream_of :: "Snapshot option \<Rightarrow> Upstream option" where
  "upstream_of snap = (case snap of None \<Rightarrow> None | Some s \<Rightarrow> sn_Upstream s)"

definition router_packet ::
  "xcrypto \<Rightarrow> env \<Rightarrow> Params \<Rightarrow> addr \<Rightarrow> int \<Rightarrow> gslice \<Rightarrow> client \<Rightarrow> (cout list \<times> client) go" where
  "router_packet cr en p a now pkt c =
     (let c = c\<lparr>cx_routerSrc := Some a\<rparr> in
      case upstream_of (cx_snap c) of
        None \<Rightarrow> Some (warnRateLimited c now)
      | Some up \<Rightarrow> do {
          typ \<leftarrow> Type pkt;
          junk \<leftarrow> (if typ = TypeInit
            then do { js \<leftarrow> JunkPackets (en_intN en) (en_junk en) p;
                      Some (send_junk (en_ok en) (up_RemoteAddr up) 0 js) }
            else Some []);
          out \<leftarrow> Obfuscate cr (en_rnd en) p pkt (up_ServerPub up);
          Some (junk @ [ToAwg (up_RemoteAddr up) (view out)], c) })"

text \<open>The result and the buffer afterwards.\<close>

definition awg_packet ::
  "xcrypto \<Rightarrow> Params \<Rightarrow> int \<Rightarrow> gslice \<Rightarrow> client \<Rightarrow> (cout list \<times> bytes \<times> client) go" where
  "awg_packet cr p now pkt c =
     (case cx_snap c of
        None \<Rightarrow> Some ([], arr pkt, c)
      | Some snap \<Rightarrow> do {
          r \<leftarrow> Deobfuscate cr p pkt (sn_ServerPub snap);
          (case r of
             None \<Rightarrow> Some ([], arr pkt, c)
           | Some (plain, typ) \<Rightarrow>
               (case cx_routerSrc c of
                  None \<Rightarrow> (case warnRateLimited c now of (w, c) \<Rightarrow> Some (w, buf_after pkt plain, c))
                | Some a \<Rightarrow> Some ([ToRouter a (view plain)], buf_after pkt plain, c))) })"

text \<open>A datagram read by one of the loops at a time, or a new snapshot.\<close>

datatype cevent =
    FromRouter addr bytes int env
  | FromAwg bytes int
  | NewSnap Snapshot

fun client_step :: "xcrypto \<Rightarrow> Params \<Rightarrow> cevent \<Rightarrow> client \<Rightarrow> (cout list \<times> client) go" where
  "client_step cr p (FromRouter a d now en) c =
     (let pkt = recv_into (cx_rbuf c) d in
      router_packet cr en p a now pkt (c\<lparr>cx_rbuf := arr pkt\<rparr>))"
| "client_step cr p (FromAwg d now) c = do {
     (outs, buf, c) \<leftarrow> awg_packet cr p now (recv_into (cx_abuf c) d) c;
     Some (outs, c\<lparr>cx_abuf := buf\<rparr>) }"
| "client_step cr p (NewSnap snap) c = Some ([], c\<lparr>cx_snap := Some snap\<rparr>)"

section \<open>Lemmas\<close>

definition env_ok :: "env \<Rightarrow> bool" where
  "env_ok en \<longleftrightarrow> (\<forall>n. length (en_rnd en n) = n) \<and> draws_ok (en_intN en) (en_junk en)"

fun event_ok :: "cevent \<Rightarrow> bool" where
  "event_ok (FromRouter a d now en) \<longleftrightarrow> env_ok en"
| "event_ok _ \<longleftrightarrow> True"

text \<open>The buffers of the loops keep their size.\<close>

definition wf_client :: "client \<Rightarrow> bool" where
  "wf_client c \<longleftrightarrow> length (cx_rbuf c) = maxPacket \<and> length (cx_abuf c) = maxPacket"

lemma wf_newClient [simp]: "wf_client newClient"
  by (simp add: wf_client_def newClient_def)

text \<open>A datagram from the router with an upstream in the snapshot.\<close>

lemma router_step_out:
  assumes "mac_sized cr" "sizes_ok p" "junk_ok p" "env_ok en" "wf_client c"
    and "upstream_of (cx_snap c) = Some up" "4 \<le> length d"
  obtains js c' where "client_step cr p (FromRouter a d now en) c = Some
      (send_junk (en_ok en) (up_RemoteAddr up) 0 js @
       [ToAwg (up_RemoteAddr up) (en_rnd en (nat (prefixFor p (head32 d))) @
          obf_msg cr p (up_ServerPub up) (take maxPacket d))], c')"
    "length js = (if head32 d = TypeInit then nat (pJc p) else 0)"
    "\<forall>j \<in> set js. pJmin p \<le> int (length j) \<and> int (length j) \<le> pJmax p"
    "c' = c\<lparr>cx_rbuf := cx_rbuf c', cx_routerSrc := Some a\<rparr>" "wf_client c'"
proof -
  let ?rest = "drop (length (take maxPacket d)) (cx_rbuf c)"
  have pkt: "recv_into (cx_rbuf c) d = gs (take maxPacket d) ?rest"
    using assms(5) by (simp add: recv_into_gs wf_client_def)
  obtain ps where ps: "JunkPackets (en_intN en) (en_junk en) p = Some ps" "length ps = nat (pJc p)"
    "\<forall>b \<in> set ps. pJmin p \<le> int (length b) \<and> int (length b) \<le> pJmax p"
    using JunkPackets_range [OF assms(3)] assms(4) unfolding env_ok_def by blast
  have obf: "Obfuscate cr (en_rnd en) p (gs (take maxPacket d) ?rest) (up_ServerPub up) =
      Some (gs (en_rnd en (nat (prefixFor p (head32 d))) @ obf_msg cr p (up_ServerPub up) (take maxPacket d)) [])"
    using Obfuscate_gs [OF assms(1,2), of "take maxPacket d" "en_rnd en"] assms(4,7)
    by (simp add: env_ok_def maxPacket_def)
  let ?js = "if head32 d = TypeInit then ps else []"
  let ?c = "c\<lparr>cx_rbuf := arr (recv_into (cx_rbuf c) d), cx_routerSrc := Some a\<rparr>"
  have "4 \<le> length (take maxPacket d)" using assms(7) by (simp add: maxPacket_def)
  then have "client_step cr p (FromRouter a d now en) c = Some
      (send_junk (en_ok en) (up_RemoteAddr up) 0 ?js @
       [ToAwg (up_RemoteAddr up) (en_rnd en (nat (prefixFor p (head32 d))) @
          obf_msg cr p (up_ServerPub up) (take maxPacket d))], ?c)"
    using assms(6) ps(1) obf
    by (simp add: router_packet_def pkt gs_sel Type_gs maxPacket_def min_less_iff_disj)
  then show thesis
    using ps(2,3) assms(5) by (intro that [of ?js ?c]) (auto simp: wf_client_def)
qed

lemma warnRateLimited_cases:
  assumes "warnRateLimited c now = (w, c')"
  obtains (quiet) "w = []" "c' = c"
  | (warned) "w = [Warned now]" "c' = c\<lparr>cx_lastLog := Some now\<rparr>" "fiveSeconds \<le> since now (cx_lastLog c)"
  using assms by (auto simp: warnRateLimited_def split: if_splits)

section \<open>Properties\<close>

definition demo_up :: Upstream where
  "demo_up = \<lparr>up_PeerID = ''*1'', up_ServerPub = replicate 32 6, up_RemoteAddr = \<lparr>ap_addr = IP4 9 0 0 1, ap_port = 51820\<rparr>,
     up_PSK = zero_key, up_Comment = []\<rparr>"

definition demo_env :: env where
  "demo_env = \<lparr>en_rnd = (\<lambda>n. replicate n 9), en_intN = (\<lambda>i b. 0), en_junk = (\<lambda>i n. replicate n 1), en_ok = (\<lambda>i. True)\<rparr>"

lemma demo_client_facts:
  "junk_ok demo_params" "env_ok demo_env" "wf_client (newClient\<lparr>cx_snap := x\<rparr>)"
  by (simp_all add: junk_ok_def env_ok_def draws_ok_def demo_params_def demo_env_def wf_client_def newClient_def)

text \<open>A WireGuard message for the owner of a key and its form on the wire.\<close>

definition carried :: "xcrypto \<Rightarrow> Params \<Rightarrow> bytes \<Rightarrow> bytes \<Rightarrow> bytes \<Rightarrow> bool" where
  "carried cr p pub m wire \<longleftrightarrow> 4 \<le> length m \<and> length wire \<le> maxPacket \<and>
     head32 m \<in> {TypeInit, TypeResponse, TypeCookie, TypeTransport} \<and>
     mac1_valid cr pub m \<and> unambiguous p (head32 m) wire"

text \<open>
  C6. The two proxies are transparent from client to server: what the router's WireGuard socket
  sends leaves the client-mode proxy, behind the junk packets, as one datagram, and a
  server-mode proxy with the same parameters that receives it forwards the very same message
  to its WireGuard server; an initiation registers its sender index for the source.
\<close>

theorem tunnel_up:
  assumes "mac_sized cr" "sizes_ok p" "junk_ok p" "env_ok en" "wf_client c"
    and "upstream_of (cx_snap c) = Some up" "length buf = maxPacket"
    and "wire = en_rnd en (nat (prefixFor p (head32 m))) @ obf_msg cr p (up_ServerPub up) m"
    and "carried cr p (sn_ServerPub snap) m wire" "8 \<le> length m"
  shows "\<exists>js c' acts buf'.
    client_step cr p (FromRouter a m now en) c =
      Some (send_junk (en_ok en) (up_RemoteAddr up) 0 js @ [ToAwg (up_RemoteAddr up) wire], c') \<and>
    length js = (if head32 m = TypeInit then nat (pJc p) else 0) \<and>
    client_packet cr p snap b (recv_into buf wire) = Some (acts @ [CForward m], buf') \<and>
    (head32 m = TypeInit \<longrightarrow> CInit b (head32 (drop 4 m)) \<in> set acts)"
proof -
  have m: "4 \<le> length m" "length wire \<le> maxPacket" using assms(9) by (simp_all add: carried_def)
  have pre: "length (en_rnd en (nat (prefixFor p (head32 m)))) = nat (prefixFor p (head32 m))"
    using assms(4) by (simp add: env_ok_def)
  have "take maxPacket m = m"
    using m assms(1) by (simp add: assms(8) length_obf_msg)
  with router_step_out [OF assms(1-6) m(1)] assms(8) obtain js c' where
    c: "client_step cr p (FromRouter a m now en) c =
      Some (send_junk (en_ok en) (up_RemoteAddr up) 0 js @ [ToAwg (up_RemoteAddr up) wire], c')"
    "length js = (if head32 m = TypeInit then nat (pJc p) else 0)"
    by metis
  let ?rest = "drop (length wire) buf"
  obtain acts where acts: "client_acts cr snap b (gs m ?rest) (head32 m) = Some acts"
    "head32 m = TypeInit \<longrightarrow> CInit b (head32 (drop 4 m)) \<in> set acts"
  proof (cases "head32 m = TypeInit")
    case True
    with client_acts_init [OF SenderIndex_gs [OF assms(10)], of cr snap b ?rest] that show thesis
      by auto
  next
    case False
    with that show thesis
      by (cases "head32 m = TypeTransport") (simp_all add: client_acts_def)
  qed
  from client_packet_wire [OF assms(1,2) m(1) _ pre assms(8), of snap buf b] acts(1) assms(7,9)
  have "client_packet cr p snap b (recv_into buf wire) =
      Some (acts @ [CForward m], en_rnd en (nat (prefixFor p (head32 m))) @ m @ ?rest)"
    by (simp add: carried_def)
  with c acts(2) show ?thesis by blast
qed

theorem tunnel_up_witness:
  "\<exists>acts buf'. client_packet demo_crypto demo_params demo_snap ''b:2'' (recv_into (replicate maxPacket 0) demo_wire) =
     Some (acts @ [CForward demo_init], buf') \<and> CInit ''b:2'' 0x07070707 \<in> set acts"
proof -
  let ?c = "newClient\<lparr>cx_snap := Some (demo_snap\<lparr>sn_Upstream := Some demo_up\<rparr>)\<rparr>"
  have "upstream_of (cx_snap ?c) = Some demo_up" "length (replicate maxPacket (0 :: byte)) = maxPacket"
    by (simp_all add: upstream_of_def)
  moreover have "demo_wire = en_rnd demo_env (nat (prefixFor demo_params (head32 demo_init))) @
      obf_msg demo_crypto demo_params (up_ServerPub demo_up) demo_init"
    by (simp add: demo_wire_def demo_env_def demo_up_def demo_init_facts prefixFor_def)
       (simp add: demo_params_def)
  moreover have "carried demo_crypto demo_params (sn_ServerPub demo_snap) demo_init demo_wire"
    by (simp add: carried_def demo_init_facts demo_wire_facts maxPacket_def demo_snap_def)
  moreover have "8 \<le> length demo_init" by (simp add: demo_init_facts)
  ultimately have "\<exists>js c' acts buf'.
    client_step demo_crypto demo_params (FromRouter ''a:1'' demo_init 0 demo_env) ?c =
      Some (send_junk (en_ok demo_env) (up_RemoteAddr demo_up) 0 js @ [ToAwg (up_RemoteAddr demo_up) demo_wire], c') \<and>
    length js = (if head32 demo_init = TypeInit then nat (pJc demo_params) else 0) \<and>
    client_packet demo_crypto demo_params demo_snap ''b:2'' (recv_into (replicate maxPacket 0) demo_wire) =
      Some (acts @ [CForward demo_init], buf') \<and>
    (head32 demo_init = TypeInit \<longrightarrow> CInit ''b:2'' (head32 (drop 4 demo_init)) \<in> set acts)"
    by (intro tunnel_up [OF demo_crypto_sized demo_params_ok demo_client_facts])
  then show ?thesis unfolding demo_init_facts by blast
qed

text \<open>
  C7. And from server to client: a reply the server-mode proxy obfuscates, under whatever key,
  reaches the router's WireGuard socket as the message the WireGuard server sent, at the
  address the socket last sent from, when its MAC1 is the one for the client's interface.
\<close>

theorem tunnel_down:
  assumes "mac_sized cr" "sizes_ok p" "\<And>n. length (rnd n) = n" "wf_client c"
    and "cx_snap c = Some snap" "cx_routerSrc c = Some a"
    and "length m \<le> maxPacket" "Obfuscate cr rnd p (gs m rest) k = Some out"
    and "carried cr p (sn_ServerPub snap) m (view out)"
  shows "\<exists>c'. client_step cr p (FromAwg (view out) now) c = Some ([ToRouter a m], c')"
proof -
  have m: "4 \<le> length m" "length (view out) \<le> maxPacket" "int (length m) < 2 ^ 62"
    using assms(7,9) by (simp_all add: carried_def maxPacket_def)
  let ?pre = "rnd (nat (prefixFor p (head32 m)))" and ?rest = "drop (length (view out)) (cx_abuf c)"
  have out: "view out = ?pre @ obf_msg cr p k m"
    using Obfuscate_gs [OF assms(1,2) m(1,3) assms(3)] assms(8) by (auto simp: gs_sel)
  have "Deobfuscate cr p (gs (view out) ?rest) (sn_ServerPub snap) = Some (Some (gs m ?rest, head32 m))"
    using assms(9) out assms(3) unfolding carried_def
    by (auto intro!: Deobfuscate_wire [OF assms(1,2)])
  moreover have "recv_into (cx_abuf c) (view out) = gs (view out) ?rest"
    using m(2) assms(4) by (simp add: recv_into_gs wf_client_def)
  ultimately show ?thesis using assms(5,6) by (simp add: awg_packet_def gs_sel)
qed

theorem tunnel_down_witness:
  "\<exists>out c'. Obfuscate demo_crypto (\<lambda>n. replicate n 9) demo_params (gs demo_data []) zero_key = Some out \<and>
     client_step demo_crypto demo_params (FromAwg (view out) 0)
       (newClient\<lparr>cx_snap := Some demo_snap, cx_routerSrc := Some ''a:1''\<rparr>) = Some ([ToRouter ''a:1'' demo_data], c')"
proof -
  let ?c = "newClient\<lparr>cx_snap := Some demo_snap, cx_routerSrc := Some ''a:1''\<rparr>"
  have 4: "head32 demo_data = TypeTransport" by (simp add: demo_data_facts wg_types)
  have obf: "obf_msg demo_crypto demo_params zero_key demo_data = le32_bytes 0x33334444 @ drop 4 demo_data"
    unfolding obf_msg_def 4
    by (simp add: remac_def MAC1Offset_def wg_types retype_def hFor_def) (simp add: demo_params_def)
  have out: "Obfuscate demo_crypto (\<lambda>n. replicate n 9) demo_params (gs demo_data []) zero_key =
      Some (gs (le32_bytes 0x33334444 @ drop 4 demo_data) [])"
    using Obfuscate_gs [OF demo_crypto_sized demo_params_ok, of demo_data "\<lambda>n. replicate n 9" "[]" zero_key]
    by (simp add: demo_data_facts obf) (simp add: prefixFor_def wg_types)
  have "carried demo_crypto demo_params (sn_ServerPub demo_snap) demo_data
      (view (gs (le32_bytes 0x33334444 @ drop 4 demo_data) []))"
    unfolding carried_def 4 gs_sel
    by (simp add: demo_data_facts maxPacket_def mac1_valid_def MAC1Offset_def unambiguous_def wg_types)
  from tunnel_down [OF demo_crypto_sized demo_params_ok _ _ _ _ _ out this, of ?c "''a:1''" 0]
  show ?thesis
    unfolding out by (simp add: newClient_def wf_client_def demo_data_facts maxPacket_def)
qed

end
