(* ===== verification/Client_System.thy ===== *)
theory Client_System
  imports Proxy_Client
begin

text \<open>
  The client-mode proxy with its two loops running concurrently: every read of a socket, every
  read of a shared variable (the poller's snapshot, the router's source), every warning and every
  datagram sent is a step of its own, and the steps of the loops interleave freely. What
  \<open>Proxy_Client\<close> does with a datagram in one step is one of these executions.
\<close>

section \<open>The loops\<close>

datatype rgor =                              \<comment> \<open>\<open>routerLoop\<close>\<close>
    RIdle
  | RGot gslice                              \<comment> \<open>the source is stored\<close>
  | RWarn
  | RSend gslice Upstream "bytes list"       \<comment> \<open>junk still to send, then the packet\<close>

datatype agor =                              \<comment> \<open>\<open>awgLoop\<close>\<close>
    AIdle
  | AHave gslice                             \<comment> \<open>the plain message\<close>
  | AWarn
  | ASend addr gslice

record cli =
  lc_c :: client          \<comment> \<open>the shared variables and the buffers\<close>
  lc_r :: rgor
  lc_a :: agor
  lc_closed :: bool
  lc_dead :: bool         \<comment> \<open>a goroutine has panicked\<close>

definition cli_of :: "client \<Rightarrow> cli" where
  "cli_of c = \<lparr>lc_c = c, lc_r = RIdle, lc_a = AIdle, lc_closed = False, lc_dead = False\<rparr>"

datatype levent =
    LFromRouter addr bytes
  | LLoad
  | LJunk addrport bytes bool
  | LToAwg addrport bytes bool
  | LFromAwg bytes
  | LSrc
  | LToRouter addr bytes bool
  | LWarn int "cout list"
  | LSnap Snapshot
  | LClose
  | LPanic

inductive cli_step :: "xcrypto \<Rightarrow> Params \<Rightarrow> cli \<Rightarrow> levent \<Rightarrow> cli \<Rightarrow> bool" for cr p where
  router_recv:
    "\<not> lc_dead s \<Longrightarrow> \<not> lc_closed s \<Longrightarrow> lc_r s = RIdle \<Longrightarrow> pkt = recv_into (cx_rbuf (lc_c s)) d \<Longrightarrow>
     cli_step cr p s (LFromRouter a d)
       (s\<lparr>lc_c := (lc_c s)\<lparr>cx_rbuf := arr pkt, cx_routerSrc := Some a\<rparr>, lc_r := RGot pkt\<rparr>)"
| router_none:
    "\<not> lc_dead s \<Longrightarrow> lc_r s = RGot pkt \<Longrightarrow> upstream_of (cx_snap (lc_c s)) = None \<Longrightarrow>
     cli_step cr p s LLoad (s\<lparr>lc_r := RWarn\<rparr>)"
| router_load:
    "\<not> lc_dead s \<Longrightarrow> lc_r s = RGot pkt \<Longrightarrow> upstream_of (cx_snap (lc_c s)) = Some up \<Longrightarrow>
     draws_ok intN junk \<Longrightarrow> Type pkt = Some typ \<Longrightarrow>
     (if typ = TypeInit then JunkPackets intN junk p else Some []) = Some js \<Longrightarrow>
     cli_step cr p s LLoad (s\<lparr>lc_r := RSend pkt up js\<rparr>)"
| router_load_panic:
    "\<not> lc_dead s \<Longrightarrow> lc_r s = RGot pkt \<Longrightarrow> upstream_of (cx_snap (lc_c s)) = Some up \<Longrightarrow>
     draws_ok intN junk \<Longrightarrow>
     Type pkt = None \<or> Type pkt = Some TypeInit \<and> JunkPackets intN junk p = None \<Longrightarrow>
     cli_step cr p s LPanic (s\<lparr>lc_dead := True\<rparr>)"
| router_junk:
    "\<not> lc_dead s \<Longrightarrow> lc_r s = RSend pkt up (j # js) \<Longrightarrow>
     cli_step cr p s (LJunk (up_RemoteAddr up) j ok) (s\<lparr>lc_r := RSend pkt up (if ok then js else [])\<rparr>)"
| router_send:
    "\<not> lc_dead s \<Longrightarrow> lc_r s = RSend pkt up [] \<Longrightarrow> (\<And>n. length (rnd n) = n) \<Longrightarrow>
     Obfuscate cr rnd p pkt (up_ServerPub up) = Some out \<Longrightarrow>
     cli_step cr p s (LToAwg (up_RemoteAddr up) (view out) ok) (s\<lparr>lc_r := RIdle\<rparr>)"
| router_send_panic:
    "\<not> lc_dead s \<Longrightarrow> lc_r s = RSend pkt up [] \<Longrightarrow> (\<And>n. length (rnd n) = n) \<Longrightarrow>
     Obfuscate cr rnd p pkt (up_ServerPub up) = None \<Longrightarrow>
     cli_step cr p s LPanic (s\<lparr>lc_dead := True\<rparr>)"
| router_warn:
    "\<not> lc_dead s \<Longrightarrow> lc_r s = RWarn \<Longrightarrow> warnRateLimited (lc_c s) now = (w, c) \<Longrightarrow>
     cli_step cr p s (LWarn now w) (s\<lparr>lc_c := c, lc_r := RIdle\<rparr>)"
| awg_none:
    "\<not> lc_dead s \<Longrightarrow> \<not> lc_closed s \<Longrightarrow> lc_a s = AIdle \<Longrightarrow> cx_snap (lc_c s) = None \<Longrightarrow>
     cli_step cr p s (LFromAwg d) (s\<lparr>lc_c := (lc_c s)\<lparr>cx_abuf := arr (recv_into (cx_abuf (lc_c s)) d)\<rparr>\<rparr>)"
| awg_drop:
    "\<not> lc_dead s \<Longrightarrow> \<not> lc_closed s \<Longrightarrow> lc_a s = AIdle \<Longrightarrow> cx_snap (lc_c s) = Some snap \<Longrightarrow>
     Deobfuscate cr p (recv_into (cx_abuf (lc_c s)) d) (sn_ServerPub snap) = Some None \<Longrightarrow>
     cli_step cr p s (LFromAwg d) (s\<lparr>lc_c := (lc_c s)\<lparr>cx_abuf := arr (recv_into (cx_abuf (lc_c s)) d)\<rparr>\<rparr>)"
| awg_recv:
    "\<not> lc_dead s \<Longrightarrow> \<not> lc_closed s \<Longrightarrow> lc_a s = AIdle \<Longrightarrow> cx_snap (lc_c s) = Some snap \<Longrightarrow>
     pkt = recv_into (cx_abuf (lc_c s)) d \<Longrightarrow>
     Deobfuscate cr p pkt (sn_ServerPub snap) = Some (Some (plain, typ)) \<Longrightarrow>
     cli_step cr p s (LFromAwg d)
       (s\<lparr>lc_c := (lc_c s)\<lparr>cx_abuf := buf_after pkt plain\<rparr>, lc_a := AHave plain\<rparr>)"
| awg_panic:
    "\<not> lc_dead s \<Longrightarrow> \<not> lc_closed s \<Longrightarrow> lc_a s = AIdle \<Longrightarrow> cx_snap (lc_c s) = Some snap \<Longrightarrow>
     Deobfuscate cr p (recv_into (cx_abuf (lc_c s)) d) (sn_ServerPub snap) = None \<Longrightarrow>
     cli_step cr p s LPanic (s\<lparr>lc_dead := True\<rparr>)"
| awg_src:
    "\<not> lc_dead s \<Longrightarrow> lc_a s = AHave plain \<Longrightarrow> cx_routerSrc (lc_c s) = Some a \<Longrightarrow>
     cli_step cr p s LSrc (s\<lparr>lc_a := ASend a plain\<rparr>)"
| awg_nosrc:
    "\<not> lc_dead s \<Longrightarrow> lc_a s = AHave plain \<Longrightarrow> cx_routerSrc (lc_c s) = None \<Longrightarrow>
     cli_step cr p s LSrc (s\<lparr>lc_a := AWarn\<rparr>)"
| awg_send:
    "\<not> lc_dead s \<Longrightarrow> lc_a s = ASend a plain \<Longrightarrow>
     cli_step cr p s (LToRouter a (view plain) ok) (s\<lparr>lc_a := AIdle\<rparr>)"
| awg_warn:
    "\<not> lc_dead s \<Longrightarrow> lc_a s = AWarn \<Longrightarrow> warnRateLimited (lc_c s) now = (w, c) \<Longrightarrow>
     cli_step cr p s (LWarn now w) (s\<lparr>lc_c := c, lc_a := AIdle\<rparr>)"
| snapshot:
    "\<not> lc_dead s \<Longrightarrow> cli_step cr p s (LSnap snap) (s\<lparr>lc_c := (lc_c s)\<lparr>cx_snap := Some snap\<rparr>\<rparr>)"
| close:
    "\<not> lc_dead s \<Longrightarrow> cli_step cr p s LClose (s\<lparr>lc_closed := True\<rparr>)"

abbreviation cli_trace :: "xcrypto \<Rightarrow> Params \<Rightarrow> levent list \<Rightarrow> cli \<Rightarrow> bool" where
  "cli_trace cr p \<equiv> trace (cli_step cr p) (cli_of newClient)"

lemmas cli_nil = trace.nil [where step = "cli_step cr p" for cr p]
lemmas cli_snoc = trace.snoc [where step = "cli_step cr p" for cr p]
lemmas cli_one = trace_step [where step = "cli_step cr p" for cr p]
lemmas cli_append = trace_append [where step = "cli_step cr p" for cr p]

section \<open>Where datagrams come from\<close>

text \<open>The router's source at the end of a trace.\<close>

fun last_src :: "levent list \<Rightarrow> addr option \<Rightarrow> addr option" where
  "last_src [] a = a"
| "last_src (LFromRouter b d # tr) a = last_src tr (Some b)"
| "last_src (_ # tr) a = last_src tr a"

lemma last_src_snoc: "last_src (tr @ [e]) a = (case e of LFromRouter b d \<Rightarrow> Some b | _ \<Rightarrow> last_src tr a)"
  by (induction tr a rule: last_src.induct) (auto split: levent.split)

lemma last_src_mem: "last_src tr None = Some a \<Longrightarrow> \<exists>d. LFromRouter a d \<in> set tr"
proof (induction tr rule: rev_induct)
  case (snoc e tr)
  then show ?case by (auto simp: last_src_snoc split: levent.splits)
qed simp

text \<open>A packet read from the router's side; a message taken out of a datagram from outside.\<close>

definition got :: "levent list \<Rightarrow> gslice \<Rightarrow> bool" where
  "got tr pkt \<longleftrightarrow> (\<exists>a d rest. LFromRouter a d \<in> set tr \<and> pkt = gs (take maxPacket d) rest)"

definition chosen :: "levent list \<Rightarrow> Upstream \<Rightarrow> bool" where
  "chosen tr up \<longleftrightarrow> (\<exists>snap. LSnap snap \<in> set tr \<and> sn_Upstream snap = Some up)"

definition opened :: "xcrypto \<Rightarrow> Params \<Rightarrow> levent list \<Rightarrow> gslice \<Rightarrow> bool" where
  "opened cr p tr plain \<longleftrightarrow>
     (\<exists>d rest snap typ. LFromAwg d \<in> set tr \<and> LSnap snap \<in> set tr \<and>
        Deobfuscate cr p (gs (take maxPacket d) rest) (sn_ServerPub snap) = Some (Some (plain, typ)))"

text \<open>The address loaded last, and when.\<close>

definition loaded_src :: "levent list \<Rightarrow> addr \<Rightarrow> bool" where
  "loaded_src tr a \<longleftrightarrow> (\<exists>tr1 tr2. tr = tr1 @ LSrc # tr2 \<and> LSrc \<notin> set tr2 \<and> last_src tr1 None = Some a)"

lemma got_mono: "got tr pkt \<Longrightarrow> got (tr @ tr') pkt"
  by (auto simp: got_def)

lemma chosen_mono: "chosen tr up \<Longrightarrow> chosen (tr @ tr') up"
  by (auto simp: chosen_def)

lemma opened_mono: "opened cr p tr plain \<Longrightarrow> opened cr p (tr @ tr') plain"
  by (auto simp: opened_def)

lemma loaded_src_snoc: "loaded_src tr a \<Longrightarrow> e \<noteq> LSrc \<Longrightarrow> loaded_src (tr @ [e]) a"
  by (fastforce simp: loaded_src_def)

definition cli_inv :: "xcrypto \<Rightarrow> Params \<Rightarrow> levent list \<Rightarrow> cli \<Rightarrow> bool" where
  "cli_inv cr p tr s \<longleftrightarrow>
     wf_client (lc_c s) \<and> cx_routerSrc (lc_c s) = last_src tr None \<and>
     (\<forall>snap. cx_snap (lc_c s) = Some snap \<longrightarrow> LSnap snap \<in> set tr) \<and>
     (\<forall>pkt. lc_r s = RGot pkt \<longrightarrow> got tr pkt) \<and>
     (\<forall>pkt up js. lc_r s = RSend pkt up js \<longrightarrow> got tr pkt \<and> chosen tr up) \<and>
     (\<forall>plain. lc_a s = AHave plain \<longrightarrow> opened cr p tr plain) \<and>
     (\<forall>a plain. lc_a s = ASend a plain \<longrightarrow> opened cr p tr plain \<and> loaded_src tr a)"

lemma wf_client_simps [simp]:
  "wf_client (c\<lparr>cx_snap := x\<rparr>) = wf_client c" "wf_client (c\<lparr>cx_routerSrc := y\<rparr>) = wf_client c"
  "wf_client (c\<lparr>cx_lastLog := z\<rparr>) = wf_client c"
  by (simp_all add: wf_client_def)

text \<open>An event other than a read of a socket's source or of the shared source keeps what the
  loops hold.\<close>

lemma cli_inv_quiet:
  assumes "cli_inv cr p tr s" "e \<noteq> LSrc" "\<forall>a d. e \<noteq> LFromRouter a d"
  shows "cli_inv cr p (tr @ [e]) s"
proof -
  have "last_src (tr @ [e]) None = last_src tr None"
    using assms(3) by (simp add: last_src_snoc split: levent.split)
  then show ?thesis
    using assms by (auto simp: cli_inv_def intro: got_mono chosen_mono opened_mono loaded_src_snoc)
qed

lemma warn_frame:
  "warnRateLimited c now = (w, c') \<Longrightarrow> wf_client c' = wf_client c \<and> cx_snap c' = cx_snap c \<and> cx_routerSrc c' = cx_routerSrc c"
  by (auto simp: warnRateLimited_def split: if_splits)

lemma recv_got:
  "wf_client c \<Longrightarrow> \<exists>rest. recv_into (cx_rbuf c) d = gs (take maxPacket d) rest"
  "wf_client c \<Longrightarrow> \<exists>rest. recv_into (cx_abuf c) d = gs (take maxPacket d) rest \<and>
     length (take maxPacket d) + length rest = maxPacket"
  by (auto simp: recv_into_gs wf_client_def)

lemma wf_client_bufs:
  "wf_client c \<Longrightarrow> wf_client (c\<lparr>cx_rbuf := arr (recv_into (cx_rbuf c) d)\<rparr>)"
  "wf_client c \<Longrightarrow> wf_client (c\<lparr>cx_abuf := arr (recv_into (cx_abuf c) d)\<rparr>)"
  by (simp_all add: wf_client_def)

lemma wf_client_opened:
  assumes "mac_sized cr" "sizes_ok p" "wf_client c"
    and "Deobfuscate cr p (recv_into (cx_abuf c) d) pub = Some (Some (plain, typ))"
  shows "wf_client (c\<lparr>cx_abuf := buf_after (recv_into (cx_abuf c) d) plain\<rparr>)"
proof -
  obtain rest where g: "recv_into (cx_abuf c) d = gs (take maxPacket d) rest"
    "length (take maxPacket d) + length rest = maxPacket" using recv_got(2) [OF assms(3)] by blast
  obtain m off where m: "plain = gs m rest" "length m + off = length (take maxPacket d)"
    using Deobfuscate_shape [OF assms(1,2), of "take maxPacket d" rest pub plain] assms(4) g(1) by metis
  then have "length (buf_after (recv_into (cx_abuf c) d) plain) = maxPacket"
    using g by (simp add: buf_after_gs)
  then show ?thesis using assms(3) by (simp add: wf_client_def)
qed

lemma cli_inv_step:
  assumes cr: "mac_sized cr" "sizes_ok p" and inv: "cli_inv cr p tr s" and step: "cli_step cr p s e s'"
  shows "cli_inv cr p (tr @ [e]) s'"
proof -
  have wf: "wf_client (lc_c s)" and src: "cx_routerSrc (lc_c s) = last_src tr None"
    and sn: "cx_snap (lc_c s) = Some snap \<Longrightarrow> LSnap snap \<in> set tr"
    and rg: "lc_r s = RGot pkt \<Longrightarrow> got tr pkt" and ah: "lc_a s = AHave plain \<Longrightarrow> opened cr p tr plain"
    for snap pkt plain
    using inv by (simp_all add: cli_inv_def)
  have quiet: "e \<noteq> LSrc \<Longrightarrow> \<forall>a d. e \<noteq> LFromRouter a d \<Longrightarrow> cli_inv cr p (tr @ [e]) s"
    by (rule cli_inv_quiet [OF inv])
  from step show ?thesis
  proof (cases rule: cli_step.cases)
    case (router_recv pkt d a)
    have "got (tr @ [e]) pkt" using recv_got(1) [OF wf, of d] router_recv by (auto simp: got_def)
    then show ?thesis using inv router_recv wf_client_bufs(1) [OF wf, of d]
      by (auto simp: cli_inv_def last_src_snoc intro: got_mono chosen_mono opened_mono loaded_src_snoc)
  next
    case (router_none pkt)
    then show ?thesis using quiet by (simp add: cli_inv_def)
  next
    case (router_load pkt up intN junk t js)
    have "chosen tr up" using router_load(5) sn by (auto simp: upstream_of_def chosen_def split: option.splits)
    then show ?thesis using quiet router_load(1,2) rg [OF router_load(4)]
      by (auto simp: cli_inv_def intro: got_mono chosen_mono)
  next
    case (router_junk pkt up j js ok)
    then show ?thesis using quiet by (simp add: cli_inv_def)
  next
    case (awg_recv snap pkt d plain t)
    obtain rest where "recv_into (cx_abuf (lc_c s)) d = gs (take maxPacket d) rest"
      using recv_got(2) [OF wf, of d] by blast
    then have "opened cr p (tr @ [e]) plain"
      unfolding opened_def using awg_recv(1,7,8) sn [OF awg_recv(6)]
      by (intro exI [of _ d] exI [of _ rest] exI [of _ snap] exI [of _ t]) simp
    then show ?thesis using quiet awg_recv wf_client_opened [OF cr wf, of d "sn_ServerPub snap" plain t]
      by (simp add: cli_inv_def)
  next
    case (awg_src plain a)
    have "loaded_src (tr @ [e]) a" using awg_src(1,5) src by (fastforce simp: loaded_src_def)
    then show ?thesis using inv awg_src ah [OF awg_src(4)]
      by (auto simp: cli_inv_def last_src_snoc intro: got_mono chosen_mono opened_mono)
  next
    case (awg_nosrc plain)
    then show ?thesis using inv
      by (auto simp: cli_inv_def last_src_snoc intro: got_mono chosen_mono opened_mono)
  next
    case (router_warn now w c)
    then show ?thesis using quiet warn_frame [OF router_warn(5)] by (simp add: cli_inv_def)
  next
    case (awg_warn now w c)
    then show ?thesis using quiet warn_frame [OF awg_warn(5)] by (simp add: cli_inv_def)
  next
    case (snapshot snap)
    then show ?thesis using quiet by (simp add: cli_inv_def)
  qed (use quiet wf_client_bufs(2) [OF wf] in \<open>simp_all add: cli_inv_def\<close>)
qed

interpretation loops: trace_inv "cli_step cr p" "cli_of newClient" "\<lambda>_. True"
    "\<lambda>tr s. mac_sized cr \<and> sizes_ok p \<longrightarrow> cli_inv cr p tr s" for cr p
  by unfold_locales (simp add: cli_inv_def cli_of_def newClient_def wf_client_def, blast intro: cli_inv_step)

section \<open>Panics\<close>

text \<open>The only panic is that of \<open>Obfuscate\<close> on a datagram shorter than a header.\<close>

lemma cli_panic_iff:
  assumes cr: "mac_sized cr" "sizes_ok p" "junk_ok p" and inv: "cli_inv cr p tr s"
  shows "(\<exists>s'. cli_step cr p s LPanic s') \<longleftrightarrow>
    \<not> lc_dead s \<and> (\<exists>pkt up. lc_r s = RSend pkt up [] \<and> length (view pkt) < 4)"
proof
  assume "\<exists>s'. cli_step cr p s LPanic s'"
  then obtain s' where "cli_step cr p s LPanic s'" ..
  then show "\<not> lc_dead s \<and> (\<exists>pkt up. lc_r s = RSend pkt up [] \<and> length (view pkt) < 4)"
  proof (cases rule: cli_step.cases)
    case (router_load_panic pkt up intN junk)
    from inv router_load_panic(3) have "got tr pkt" by (simp add: cli_inv_def)
    then obtain bs rest where "pkt = gs bs rest" by (auto simp: got_def)
    then show ?thesis
      using router_load_panic(5,6) JunkPackets_range [OF cr(3), of intN junk] by (auto simp: Type_gs)
  next
    case (router_send_panic pkt up rnd)
    from inv router_send_panic(3) have "got tr pkt" by (simp add: cli_inv_def)
    then obtain d rest where g: "pkt = gs (take maxPacket d) rest" by (auto simp: got_def)
    have "length (take maxPacket d) < 4"
    proof (rule ccontr)
      assume "\<not> ?thesis"
      then have "4 \<le> length (take maxPacket d)" "int (length (take maxPacket d)) < 2 ^ 62"
        by (simp_all add: maxPacket_def)
      from Obfuscate_gs [OF cr(1,2) this router_send_panic(4), of rest "up_ServerPub up"] router_send_panic(5) g
      show False by simp
    qed
    with g router_send_panic(2,3) show ?thesis by (auto simp: gs_sel)
  next
    case (awg_panic snap d)
    obtain bs rest where "recv_into (cx_abuf (lc_c s)) d = gs bs rest" by (simp add: recv_into_gs)
    then show ?thesis using awg_panic(6) Deobfuscate_gs [OF cr(1,2)] by simp
  qed
next
  assume "\<not> lc_dead s \<and> (\<exists>pkt up. lc_r s = RSend pkt up [] \<and> length (view pkt) < 4)"
  then obtain pkt up where s: "\<not> lc_dead s" "lc_r s = RSend pkt up []" "length (view pkt) < 4" by blast
  from inv s(2) have "got tr pkt" by (simp add: cli_inv_def)
  then obtain d rest where g: "pkt = gs (take maxPacket d) rest" by (auto simp: got_def)
  have z: "prefixFor p 0 = 0" by (simp add: prefixFor_def wg_types)
  have "Obfuscate cr (\<lambda>n. replicate n 0) p (gs (take maxPacket d) rest) (up_ServerPub up) = None"
    using s(3) by (simp add: g gs_sel Obfuscate_def gs_simps gs_make z Let_def)
  then show "\<exists>s'. cli_step cr p s LPanic s'"
    using cli_step.router_send_panic [OF s(1,2), of "\<lambda>n. replicate n 0" cr p] g by auto
qed

definition short_seen :: "levent list \<Rightarrow> bool" where
  "short_seen tr \<longleftrightarrow> (\<exists>a d. LFromRouter a d \<in> set tr \<and> length d < 4)"

lemma dead_step:
  assumes "mac_sized cr" "sizes_ok p" "junk_ok p" "cli_inv cr p tr s" "lc_dead s \<longrightarrow> short_seen tr"
    and step: "cli_step cr p s e s'"
  shows "lc_dead s' \<longrightarrow> short_seen (tr @ [e])"
proof (cases "e = LPanic")
  case True
  with cli_panic_iff [OF assms(1-4)] step obtain pkt up where
    "lc_r s = RSend pkt up []" "length (view pkt) < 4" by blast
  moreover from this(1) assms(4) have "got tr pkt" by (simp add: cli_inv_def)
  then obtain a d rest where "LFromRouter a d \<in> set tr" "pkt = gs (take maxPacket d) rest"
    unfolding got_def by blast
  moreover have "length d < 4" if "length (take maxPacket d) < 4"
    using that by (auto simp: maxPacket_def min_def split: if_splits)
  ultimately have "short_seen tr" unfolding short_seen_def by (simp only: gs_sel) blast
  then show ?thesis by (auto simp: short_seen_def)
next
  case False
  from step have "\<not> lc_dead s'" by (cases rule: cli_step.cases) (use False in auto)
  then show ?thesis by simp
qed

interpretation panics: trace_inv "cli_step cr p" "cli_of newClient" "\<lambda>_. True"
    "\<lambda>tr s. mac_sized cr \<and> sizes_ok p \<and> junk_ok p \<longrightarrow> lc_dead s \<longrightarrow> short_seen tr" for cr p
proof unfold_locales
  fix tr s e s'
  assume "trace (cli_step cr p) (cli_of newClient) tr s"
  then have "mac_sized cr \<and> sizes_ok p \<longrightarrow> cli_inv cr p tr s" by (rule loops.holds) simp
  moreover assume "mac_sized cr \<and> sizes_ok p \<and> junk_ok p \<longrightarrow> lc_dead s \<longrightarrow> short_seen tr" "cli_step cr p s e s'"
  ultimately show "mac_sized cr \<and> sizes_ok p \<and> junk_ok p \<longrightarrow> lc_dead s' \<longrightarrow> short_seen (tr @ [e])"
    using dead_step by blast
qed (simp add: cli_of_def)

section \<open>The log\<close>

text \<open>The times at which the loops wanted to warn, and those at which they did.\<close>

fun warn_times :: "levent list \<Rightarrow> int list" where
  "warn_times [] = []"
| "warn_times (LWarn t w # tr) = t # warn_times tr"
| "warn_times (_ # tr) = warn_times tr"

fun logged :: "levent list \<Rightarrow> int list" where
  "logged [] = []"
| "logged (LWarn t w # tr) = (if w = [] then logged tr else t # logged tr)"
| "logged (_ # tr) = logged tr"

lemma warn_times_append [simp]: "warn_times (tr @ tr') = warn_times tr @ warn_times tr'"
  by (induction tr rule: warn_times.induct) simp_all

lemma logged_append [simp]: "logged (tr @ tr') = logged tr @ logged tr'"
  by (induction tr rule: logged.induct) simp_all

lemma logged_sub: "set (logged tr) \<subseteq> set (warn_times tr)"
  by (induction tr rule: logged.induct) auto

definition log_inv :: "levent list \<Rightarrow> cli \<Rightarrow> bool" where
  "log_inv tr s \<longleftrightarrow> (sorted (warn_times tr) \<longrightarrow>
     sorted_wrt (\<lambda>t u. t + fiveSeconds \<le> u) (logged tr) \<and>
     (\<forall>t \<in> set (logged tr). \<exists>u. cx_lastLog (lc_c s) = Some u \<and> t \<le> u))"

lemma log_warn:
  assumes "log_inv tr s" "warnRateLimited (lc_c s) now = (w, c)" "lc_c s' = c"
  shows "log_inv (tr @ [LWarn now w]) s'"
  using assms(2)
proof (cases rule: warnRateLimited_cases)
  case quiet
  then show ?thesis using assms(1,3) by (simp add: log_inv_def sorted_append)
next
  case warned
  have "t + fiveSeconds \<le> now" if "sorted (warn_times tr)" "t \<in> set (logged tr)" for t
    using assms(1) that warned(3) by (force simp: log_inv_def since_def)
  moreover have "t \<le> now" if "\<forall>x \<in> set (warn_times tr). x \<le> now" "t \<in> set (logged tr)" for t
    using that logged_sub [of tr] by blast
  ultimately show ?thesis
    using assms(1,3) warned(1,2) by (auto simp: log_inv_def sorted_append sorted_wrt_append)
qed

lemma log_inv_step:
  assumes "log_inv tr s" "cli_step cr p s e s'"
  shows "log_inv (tr @ [e]) s'"
  using assms(2)
proof (cases rule: cli_step.cases)
  case (router_warn now w c)
  then show ?thesis using log_warn [OF assms(1) router_warn(5)] by simp
next
  case (awg_warn now w c)
  then show ?thesis using log_warn [OF assms(1) awg_warn(5)] by simp
qed (use assms(1) in \<open>simp_all add: log_inv_def\<close>)

interpretation warnings: trace_inv "cli_step cr p" "cli_of newClient" "\<lambda>_. True" log_inv for cr p
  by unfold_locales (simp add: log_inv_def, rule log_inv_step)

text \<open>
  The log is protected against spam: however the loops interleave, with a clock that does not go
  back the warnings written are at least five seconds apart.
\<close>

lemma warnings_rate_limited:
  assumes "cli_trace cr p tr s" "sorted (warn_times tr)"
  shows "sorted_wrt (\<lambda>t u. t + fiveSeconds \<le> u) (logged tr)"
  using warnings.holds [OF assms(1)] assms(2) by (simp add: log_inv_def)

section \<open>The one-step view\<close>

fun out_of :: "levent \<Rightarrow> cout list" where
  "out_of (LJunk r j ok) = [ToAwg r j]"
| "out_of (LToAwg r m ok) = [ToAwg r m]"
| "out_of (LToRouter a m ok) = [ToRouter a m]"
| "out_of (LWarn t w) = w"
| "out_of _ = []"

lemma junk_execution:
  assumes "\<not> lc_dead s" "lc_r s = RSend pkt up js"
  shows "\<exists>tr. trace (cli_step cr p) s tr (s\<lparr>lc_r := RSend pkt up []\<rparr>) \<and>
    concat (map out_of tr) = send_junk ok (up_RemoteAddr up) i js"
  using assms
proof (induction js arbitrary: s i)
  case Nil
  then have "s\<lparr>lc_r := RSend pkt up []\<rparr> = s" by (cases s) simp
  then show ?case using trace.nil [of "cli_step cr p" s] by (intro exI [of _ "[]"]) simp
next
  case (Cons j js)
  let ?s = "s\<lparr>lc_r := RSend pkt up (if ok i then js else [])\<rparr>"
  note first = cli_one [OF cli_step.router_junk [OF Cons.prems, of cr p "ok i"]]
  show ?case
  proof (cases "ok i")
    case True
    with Cons.IH [of ?s "i + 1"] Cons.prems(1) obtain tr where
      "trace (cli_step cr p) ?s tr (s\<lparr>lc_r := RSend pkt up []\<rparr>)"
      "concat (map out_of tr) = send_junk ok (up_RemoteAddr up) (i + 1) js" by auto
    with cli_append [OF first] True show ?thesis by fastforce
  next
    case False
    with first show ?thesis by (intro exI [of _ "[LJunk (up_RemoteAddr up) j False]"]) simp
  qed
qed

lemma cli_extend:
  assumes "trace (cli_step cr p) s0 tr s" "cli_step cr p s e s'" "concat (map out_of (tr @ [e])) = outs"
  shows "\<exists>tr. trace (cli_step cr p) s0 tr s' \<and> concat (map out_of tr) = outs"
  using trace.snoc [OF assms(1,2)] assms(3) by blast

lemma router_execution:
  assumes "router_packet cr en p a now pkt c = Some (outs, c')" "env_ok en" "pkt = recv_into (cx_rbuf c0) d"
    and "c = c0\<lparr>cx_rbuf := arr pkt\<rparr>"
  shows "\<exists>tr. trace (cli_step cr p) (cli_of c0) tr (cli_of c') \<and> concat (map out_of tr) = outs"
proof -
  let ?c = "c0\<lparr>cx_rbuf := arr pkt, cx_routerSrc := Some a\<rparr>"
  let ?s1 = "(cli_of c0)\<lparr>lc_c := ?c, lc_r := RGot pkt\<rparr>"
  have 1: "trace (cli_step cr p) (cli_of c0) [LFromRouter a d] ?s1"
    using cli_one [OF cli_step.router_recv [of "cli_of c0" pkt d cr p a]] assms(3) by (simp add: cli_of_def)
  have snap: "cx_snap (lc_c ?s1) = cx_snap c0" by simp
  show ?thesis
  proof (cases "upstream_of (cx_snap c0)")
    case None
    have w: "warnRateLimited ?c now = (outs, c')"
      using assms(1,4) None by (simp add: router_packet_def)
    have "cli_step cr p ?s1 LLoad (?s1\<lparr>lc_r := RWarn\<rparr>)"
      by (rule cli_step.router_none) (simp_all add: cli_of_def None)
    note 2 = cli_snoc [OF 1 this]
    have "cli_step cr p (?s1\<lparr>lc_r := RWarn\<rparr>) (LWarn now outs) (?s1\<lparr>lc_r := RWarn, lc_c := c', lc_r := RIdle\<rparr>)"
      by (rule cli_step.router_warn) (simp_all add: cli_of_def w)
    from cli_extend [OF 2 this] show ?thesis by (simp add: cli_of_def)
  next
    case (Some up)
    obtain t js out where t: "Type pkt = Some t"
      "(if t = TypeInit then JunkPackets (en_intN en) (en_junk en) p else Some []) = Some js"
      "Obfuscate cr (en_rnd en) p pkt (up_ServerPub up) = Some out"
      "outs = send_junk (en_ok en) (up_RemoteAddr up) 0 js @ [ToAwg (up_RemoteAddr up) (view out)]" "c' = ?c"
      using assms(1,4) Some by (auto simp: router_packet_def Let_def split: bind_splits if_splits)
    let ?s2 = "?s1\<lparr>lc_r := RSend pkt up js\<rparr>"
    have "cli_step cr p ?s1 LLoad ?s2"
      by (rule cli_step.router_load [where intN = "en_intN en" and junk = "en_junk en"])
        (use assms(2) Some t(1,2) in \<open>simp_all add: cli_of_def env_ok_def\<close>)
    note 2 = cli_snoc [OF 1 this]
    obtain tr where tr: "trace (cli_step cr p) ?s2 tr (?s2\<lparr>lc_r := RSend pkt up []\<rparr>)"
      "concat (map out_of tr) = send_junk (en_ok en) (up_RemoteAddr up) 0 js"
      using junk_execution [of ?s2 pkt up js cr p "en_ok en" 0] by (auto simp: cli_of_def)
    note 3 = cli_append [OF 2 tr(1)]
    have "cli_step cr p (?s2\<lparr>lc_r := RSend pkt up []\<rparr>) (LToAwg (up_RemoteAddr up) (view out) True)
        (?s2\<lparr>lc_r := RSend pkt up [], lc_r := RIdle\<rparr>)"
      by (rule cli_step.router_send [where rnd = "en_rnd en"])
        (use assms(2) t(3) in \<open>simp_all add: cli_of_def env_ok_def\<close>)
    from cli_extend [OF 3 this] show ?thesis by (simp add: cli_of_def tr(2) t(4,5))
  qed
qed

lemma awg_execution:
  assumes "awg_packet cr p now (recv_into (cx_abuf c) d) c = Some (outs, buf, c')"
  shows "\<exists>tr. trace (cli_step cr p) (cli_of c) tr (cli_of (c'\<lparr>cx_abuf := buf\<rparr>)) \<and> concat (map out_of tr) = outs"
proof -
  let ?pkt = "recv_into (cx_abuf c) d" and ?s = "cli_of c"
  have s: "\<not> lc_dead ?s" "\<not> lc_closed ?s" "lc_a ?s = AIdle" "lc_c ?s = c" by (simp_all add: cli_of_def)
  show ?thesis
  proof (cases "cx_snap c")
    case None
    with cli_step.awg_none [OF s(1-3), of cr p d] assms show ?thesis
      by (intro exI [of _ "[LFromAwg d]"]) (auto simp: awg_packet_def cli_of_def intro!: cli_one)
  next
    case (Some snap)
    then obtain r where r: "Deobfuscate cr p ?pkt (sn_ServerPub snap) = Some r"
      using assms by (auto simp: awg_packet_def split: bind_splits)
    show ?thesis
    proof (cases r)
      case None
      with cli_step.awg_drop [OF s(1-3), of snap cr p d] r Some assms show ?thesis
        by (intro exI [of _ "[LFromAwg d]"]) (auto simp: awg_packet_def cli_of_def intro!: cli_one)
    next
      case r': (Some pt)
      obtain plain t where pt: "pt = (plain, t)" by force
      let ?c1 = "c\<lparr>cx_abuf := buf_after ?pkt plain\<rparr>"
      let ?s1 = "?s\<lparr>lc_c := ?c1, lc_a := AHave plain\<rparr>"
      have "cli_step cr p ?s (LFromAwg d) ?s1"
        using cli_step.awg_recv [OF s(1-3), of snap ?pkt d cr p plain t] Some r r' pt s(4) by simp
      note 1 = cli_one [OF this]
      show ?thesis
      proof (cases "cx_routerSrc c")
        case None
        have w: "buf = buf_after ?pkt plain" "warnRateLimited c now = (outs, c')"
          using assms Some r r' pt None by (auto simp: awg_packet_def split: prod.splits)
        have "warnRateLimited ?c1 now = (outs, c'\<lparr>cx_abuf := buf\<rparr>)"
          using w by (auto simp: warnRateLimited_def split: if_splits)
        then have "cli_step cr p (?s1\<lparr>lc_a := AWarn\<rparr>) (LWarn now outs) (?s1\<lparr>lc_a := AWarn, lc_c := c'\<lparr>cx_abuf := buf\<rparr>, lc_a := AIdle\<rparr>)"
          by (intro cli_step.awg_warn) (simp_all add: cli_of_def)
        moreover have "cli_step cr p ?s1 LSrc (?s1\<lparr>lc_a := AWarn\<rparr>)"
          by (rule cli_step.awg_nosrc) (simp_all add: cli_of_def None)
        ultimately show ?thesis using cli_extend [OF cli_snoc [OF 1]] by (fastforce simp: cli_of_def)
      next
        case src: (Some a)
        have o: "outs = [ToRouter a (view plain)]" "buf = buf_after ?pkt plain" "c' = c"
          using assms Some r r' pt src by (auto simp: awg_packet_def)
        have "cli_step cr p ?s1 LSrc (?s1\<lparr>lc_a := ASend a plain\<rparr>)"
          by (rule cli_step.awg_src) (simp_all add: cli_of_def src)
        moreover have "cli_step cr p (?s1\<lparr>lc_a := ASend a plain\<rparr>) (LToRouter a (view plain) True)
            (?s1\<lparr>lc_a := ASend a plain, lc_a := AIdle\<rparr>)"
          by (rule cli_step.awg_send) (simp_all add: cli_of_def)
        ultimately show ?thesis using cli_extend [OF cli_snoc [OF 1]] o by (fastforce simp: cli_of_def)
      qed
    qed
  qed
qed

text \<open>Handling one datagram at a time, as \<open>client_step\<close> does, is one of the executions of the
  concurrent loops, with the same datagrams sent and the same warnings.\<close>

lemma client_step_is_execution:
  assumes "client_step cr p e c = Some (outs, c')" "event_ok e"
  shows "\<exists>tr. trace (cli_step cr p) (cli_of c) tr (cli_of c') \<and> concat (map out_of tr) = outs"
proof (cases e)
  case (FromRouter a d now en)
  with assms show ?thesis by (intro router_execution [OF _ _ refl refl]) (simp_all add: Let_def)
next
  case (FromAwg d now)
  with assms obtain buf c1 where "awg_packet cr p now (recv_into (cx_abuf c) d) c = Some (outs, buf, c1)"
    "c' = c1\<lparr>cx_abuf := buf\<rparr>" by (auto split: bind_splits)
  then show ?thesis using awg_execution by blast
next
  case (NewSnap snap)
  then show ?thesis
    using assms cli_one [OF cli_step.snapshot [of "cli_of c" cr p snap]]
    by (intro exI [of _ "[LSnap snap]"]) (auto simp: cli_of_def)
qed

section \<open>Properties\<close>


text \<open>
  C34. The client-mode proxy is no open relay, however its loops interleave. What it sends to the
  outside goes to the upstream of a snapshot the poller delivered, and is the obfuscated form, for
  that upstream's key, of a datagram from the router's side, or a junk packet. What it sends to the
  router's side is the message a datagram from outside carried, with the header and MAC1 taken off
  under a delivered snapshot, and goes to the source that had last sent when the loop looked.
\<close>

theorem client_confined:
  assumes "mac_sized cr" "sizes_ok p" "cli_trace cr p tr s" "cli_step cr p s e s'"
  shows "case e of
      LToAwg r m ok \<Rightarrow> \<exists>pkt up rnd out. got tr pkt \<and> chosen tr up \<and> up_RemoteAddr up = r \<and>
        Obfuscate cr rnd p pkt (up_ServerPub up) = Some out \<and> m = view out
    | LJunk r j ok \<Rightarrow> \<exists>up. chosen tr up \<and> up_RemoteAddr up = r
    | LToRouter a m ok \<Rightarrow> loaded_src tr a \<and> (\<exists>plain. opened cr p tr plain \<and> m = view plain)
    | _ \<Rightarrow> True"
proof -
  have inv: "cli_inv cr p tr s" using loops.holds [OF assms(3)] assms(1,2) by simp
  from assms(4) show ?thesis
  proof (cases rule: cli_step.cases)
    case (router_junk pkt up j js ok)
    with inv show ?thesis by (auto simp: cli_inv_def)
  next
    case (router_send pkt up rnd out ok)
    with inv have "got tr pkt \<and> chosen tr up" by (simp add: cli_inv_def)
    with router_send(1,6) show ?thesis by auto
  next
    case (awg_send a plain ok)
    with inv show ?thesis by (auto simp: cli_inv_def)
  qed simp_all
qed

text \<open>An initiation from the router's side is sent on, and the proxy then gets a datagram of two
  bytes.\<close>

definition demo_up_snap :: Snapshot where
  "demo_up_snap = demo_snap\<lparr>sn_Upstream := Some demo_up\<rparr>"

lemma demo_client_trace:
  obtains tr s s' out where "cli_trace demo_crypto demo_params tr s" "LFromRouter ''a:1'' demo_init \<in> set tr"
    "cli_step demo_crypto demo_params s (LToAwg (up_RemoteAddr demo_up) out True) s'"
proof -
  let ?step = "cli_step demo_crypto demo_params"
  let ?c = "newClient\<lparr>cx_snap := Some demo_up_snap\<rparr>" and ?pkt = "recv_into (cx_rbuf newClient) demo_init"
  have 1: "?step (cli_of newClient) (LSnap demo_up_snap) (cli_of ?c)"
    using cli_step.snapshot [of "cli_of newClient" demo_crypto demo_params demo_up_snap] by (simp add: cli_of_def)
  let ?s2 = "(cli_of ?c)\<lparr>lc_c := ?c\<lparr>cx_rbuf := arr ?pkt, cx_routerSrc := Some ''a:1''\<rparr>, lc_r := RGot ?pkt\<rparr>"
  have 2: "?step (cli_of ?c) (LFromRouter ''a:1'' demo_init) ?s2"
    using cli_step.router_recv [of "cli_of ?c" ?pkt demo_init demo_crypto demo_params "''a:1''"]
    by (simp add: cli_of_def)
  have up: "upstream_of (cx_snap (lc_c ?s2)) = Some demo_up" by (simp add: upstream_of_def demo_up_snap_def)
  obtain rest where g: "?pkt = gs (take maxPacket demo_init) rest"
    using recv_got(1) [OF wf_newClient] by blast
  have len: "4 \<le> length demo_init" "take maxPacket demo_init = demo_init" "int (length demo_init) < 2 ^ 62"
    by (simp_all add: demo_init_facts maxPacket_def)
  have draws: "draws_ok (en_intN demo_env) (en_junk demo_env)" using demo_client_facts(2) by (simp add: env_ok_def)
  obtain ps where ps: "JunkPackets (en_intN demo_env) (en_junk demo_env) demo_params = Some ps"
    using JunkPackets_range [OF demo_client_facts(1) draws] by blast
  obtain t where ty: "Type ?pkt = Some t" by (simp add: g Type_gs)
  define js where "js = (if t = TypeInit then ps else [])"
  have t: "Type ?pkt = Some t"
    "(if t = TypeInit then JunkPackets (en_intN demo_env) (en_junk demo_env) demo_params else Some []) = Some js"
    using ty by (simp_all add: ps js_def)
  have dead: "\<not> lc_dead ?s2" "lc_r ?s2 = RGot ?pkt" by (simp_all add: cli_of_def)
  note 3 = cli_step.router_load [OF dead up draws t]
  let ?s3 = "?s2\<lparr>lc_r := RSend ?pkt demo_up js\<rparr>"
  have "\<not> lc_dead ?s3" "lc_r ?s3 = RSend ?pkt demo_up js" by (simp_all add: cli_of_def)
  from junk_execution [OF this] obtain tr where
    tr: "trace ?step ?s3 tr (?s3\<lparr>lc_r := RSend ?pkt demo_up []\<rparr>)" by blast
  have "\<exists>out. Obfuscate demo_crypto (\<lambda>n. replicate n 0) demo_params ?pkt (up_ServerPub demo_up) = Some out"
    unfolding g len(2) using Obfuscate_gs [OF demo_crypto_sized demo_params_ok len(1,3)] by auto
  then obtain out where out: "Obfuscate demo_crypto (\<lambda>n. replicate n 0) demo_params ?pkt (up_ServerPub demo_up) = Some out" ..
  have 4: "?step (?s3\<lparr>lc_r := RSend ?pkt demo_up []\<rparr>) (LToAwg (up_RemoteAddr demo_up) (view out) True)
      (?s3\<lparr>lc_r := RSend ?pkt demo_up [], lc_r := RIdle\<rparr>)"
    by (rule cli_step.router_send [where rnd = "\<lambda>n. replicate n 0", OF _ _ _ out]) (simp_all add: cli_of_def)
  note t3 = cli_append [OF cli_snoc [OF cli_snoc [OF cli_one [OF 1] 2] 3] tr]
  show thesis by (rule that [OF t3 _ 4]) simp
qed

theorem client_confined_witness:
  "\<exists>tr s out. cli_trace demo_crypto demo_params tr s \<and> LFromRouter ''a:1'' demo_init \<in> set tr \<and>
     (\<exists>pkt up rnd o'. got tr pkt \<and> chosen tr up \<and> Obfuscate demo_crypto rnd demo_params pkt (up_ServerPub up) = Some o' \<and>
        out = view o')"
proof -
  obtain tr s s' out where 1: "cli_trace demo_crypto demo_params tr s" "LFromRouter ''a:1'' demo_init \<in> set tr"
    "cli_step demo_crypto demo_params s (LToAwg (up_RemoteAddr demo_up) out True) s'"
    by (rule demo_client_trace)
  from client_confined [OF demo_crypto_sized demo_params_ok 1(1,3)]
  have "\<exists>pkt up rnd o'. got tr pkt \<and> chosen tr up \<and> Obfuscate demo_crypto rnd demo_params pkt (up_ServerPub up) = Some o' \<and>
      out = view o'"
    by auto
  with 1(1,2) show ?thesis by blast
qed


end
