(* ===== verification/Api_Auth.thy ===== *)
theory Api_Auth
  imports Proxy_Sessions Netip
begin

text \<open>
  Package \<open>api\<close>, file \<open>auth.go\<close>: the tokens of the web sessions and the limiter of login
  attempts. Both are maps under a mutex, so every method is one atomic step; times are in
  nanoseconds, the random bytes of a token are an argument.
\<close>

definition secondNs :: int where "secondNs = 1000000000"

section \<open>Sessions\<close>

definition sessionCookie :: string where "sessionCookie = ''awgproxy_session''"
definition sessionTTL :: int where "sessionTTL = 12 * 3600 * secondNs"

type_synonym tokens = "string \<rightharpoonup> int"     \<comment> \<open>token to expiry\<close>

definition newSessions :: tokens where "newSessions = Map.empty"

text \<open>\<open>hex.EncodeToString\<close>.\<close>

definition hex_encode :: "bytes \<Rightarrow> string" where
  "hex_encode bs = concat (map (\<lambda>b. [hex_char (unat b div 16), hex_char (unat b mod 16)]) bs)"

text \<open>\<open>create\<close>: \<open>None\<close> when \<open>rand.Read\<close> fails.\<close>

definition create :: "bytes option \<Rightarrow> int \<Rightarrow> tokens \<Rightarrow> (string \<times> tokens) option" where
  "create rnd now m =
     (case rnd of
        None \<Rightarrow> None
      | Some b \<Rightarrow> (let tok = hex_encode b in Some (tok, m(tok \<mapsto> now + sessionTTL))))"

definition tok_valid :: "string \<Rightarrow> int \<Rightarrow> tokens \<Rightarrow> bool \<times> tokens" where
  "tok_valid tok now m =
     (if tok = [] then (False, m)
      else case m tok of
          None \<Rightarrow> (False, m)
        | Some exp \<Rightarrow> if now > exp then (False, m(tok := None)) else (True, m))"

definition tok_drop :: "string \<Rightarrow> tokens \<Rightarrow> tokens" where
  "tok_drop tok m = m(tok := None)"

section \<open>The limiter\<close>

definition maxFails :: int where "maxFails = 5"
definition failWindow :: int where "failWindow = 5 * 60 * secondNs"
definition lockoutTime :: int where "lockoutTime = 5 * 60 * secondNs"

lemmas limits = maxFails_def failWindow_def lockoutTime_def secondNs_def

record attempt =
  at_fails :: int
  at_first :: int
  at_lockUntil :: "int option"          \<comment> \<open>\<open>None\<close>: the zero \<open>time.Time\<close>\<close>

type_synonym limiter = "string \<rightharpoonup> attempt"

definition newLimiter :: limiter where "newLimiter = Map.empty"

text \<open>\<open>time.Until\<close>: on the zero time it saturates.\<close>

definition until :: "int option \<Rightarrow> int \<Rightarrow> int" where
  "until t now = (case t of None \<Rightarrow> - (2 ^ 63) | Some u \<Rightarrow> u - now)"

text \<open>\<open>allowed\<close>: \<open>None\<close> allows, \<open>Some d\<close> is locked for another \<open>d\<close>.\<close>

definition allowed :: "string \<Rightarrow> int \<Rightarrow> limiter \<Rightarrow> int option" where
  "allowed key now l =
     (case l key of
        None \<Rightarrow> None
      | Some a \<Rightarrow> (let d = until (at_lockUntil a) now in if d > 0 then Some d else None))"

definition lim_fail :: "string \<Rightarrow> int \<Rightarrow> limiter \<Rightarrow> limiter" where
  "lim_fail key now l =
     (let fresh = \<lparr>at_fails = 0, at_first = now, at_lockUntil = None\<rparr>;
          a = (case l key of
                 None \<Rightarrow> fresh
               | Some a \<Rightarrow> if now - at_first a > failWindow then fresh else a);
          a = a\<lparr>at_fails := at_fails a + 1\<rparr>;
          a = (if at_fails a \<ge> maxFails
               then a\<lparr>at_lockUntil := Some (now + lockoutTime), at_fails := 0, at_first := now\<rparr>
               else a)
      in l(key \<mapsto> a))"

definition lim_reset :: "string \<Rightarrow> limiter \<Rightarrow> limiter" where
  "lim_reset key l = l(key := None)"

section \<open>Runs of the limiter\<close>

text \<open>The outcome of one password check.\<close>

datatype limop =
    LFail string int
  | LReset string

fun lim_exec :: "limiter \<Rightarrow> limop \<Rightarrow> limiter" where
  "lim_exec l (LFail key now) = lim_fail key now l"
| "lim_exec l (LReset key) = lim_reset key l"

fun lim_key :: "limop \<Rightarrow> string" where
  "lim_key (LFail key now) = key"
| "lim_key (LReset key) = key"

abbreviation lim_run :: "limiter \<Rightarrow> limop list \<Rightarrow> limiter" where
  "lim_run l ops \<equiv> foldl lim_exec l ops"

text \<open>Keys do not interfere.\<close>

lemma lim_exec_other: "lim_key x \<noteq> key \<Longrightarrow> lim_exec l x key = l key"
  by (cases x) (auto simp: lim_fail_def lim_reset_def Let_def)

lemma lim_exec_cong: "l key = l' key \<Longrightarrow> lim_key x = key \<Longrightarrow> lim_exec l x key = lim_exec l' x key"
  by (cases x) (auto simp: lim_fail_def lim_reset_def Let_def)

lemma lim_run_key:
  "l key = l' key \<Longrightarrow>
     lim_run l ops key = lim_run l' (filter (\<lambda>x. lim_key x = key) ops) key"
proof (induction ops arbitrary: l l')
  case (Cons x ops)
  show ?case
  proof (cases "lim_key x = key")
    case True
    with Cons.IH [of "lim_exec l x" "lim_exec l' x", OF lim_exec_cong [of l key l', OF Cons.prems True]]
    show ?thesis by simp
  next
    case False
    with Cons.IH [of "lim_exec l x" l'] Cons.prems show ?thesis by (simp add: lim_exec_other)
  qed
qed simp

lemma allowed_cong: "l key = l' key \<Longrightarrow> allowed key now l = allowed key now l'"
  by (simp add: allowed_def)

text \<open>The failures of a key within the window, up to the one that locks.\<close>

lemma first_fail:
  "l key = None \<Longrightarrow> lim_fail key t l key = Some \<lparr>at_fails = 1, at_first = t, at_lockUntil = None\<rparr>"
  by (simp add: lim_fail_def Let_def limits)

lemma next_fail:
  assumes "l key = Some \<lparr>at_fails = n, at_first = t0, at_lockUntil = None\<rparr>" "t - t0 \<le> failWindow"
  shows "lim_fail key t l key = Some (if n < 4 then \<lparr>at_fails = n + 1, at_first = t0, at_lockUntil = None\<rparr>
    else \<lparr>at_fails = 0, at_first = t, at_lockUntil = Some (t + lockoutTime)\<rparr>)"
  using assms by (simp add: lim_fail_def Let_def limits)

section \<open>Properties\<close>

text \<open>
  C37. Five wrong passwords from one address lock it out: whatever other addresses do in
  between, after its first five failures within the window the address may not try again until exactly \<open>lockoutTime\<close> after the fifth.
\<close>

theorem limiter_locks:
  assumes "l key = None" "filter (\<lambda>x. lim_key x = key) ops = map (LFail key) [t1, t2, t3, t4, t5]"
    and "\<forall>t \<in> {t2, t3, t4, t5}. t - t1 \<le> failWindow"
  shows "allowed key now (lim_run l ops) =
    (if now < t5 + lockoutTime then Some (t5 + lockoutTime - now) else None)"
proof -
  let ?l = "foldl (\<lambda>l t. lim_fail key t l) l"
  have w: "t2 - t1 \<le> failWindow" "t3 - t1 \<le> failWindow" "t4 - t1 \<le> failWindow" "t5 - t1 \<le> failWindow"
    using assms(3) by simp_all
  have "lim_run l ops key = ?l [t1, t2, t3, t4, t5] key"
    using lim_run_key [of l key l ops] assms(2) by simp
  also have "\<dots> = Some \<lparr>at_fails = 0, at_first = t5, at_lockUntil = Some (t5 + lockoutTime)\<rparr>"
    using first_fail [of l key t1, OF assms(1)]
      next_fail [of "?l [t1]" key 1 t1 t2] next_fail [of "?l [t1, t2]" key 2 t1 t3]
      next_fail [of "?l [t1, t2, t3]" key 3 t1 t4] next_fail [of "?l [t1, t2, t3, t4]" key 4 t1 t5] w
    by simp
  finally show ?thesis by (simp add: allowed_def until_def Let_def)
qed

theorem limiter_locks_witness:
  "allowed ''9.0.0.1'' 5 (lim_run newLimiter [LFail ''9.0.0.1'' 0, LFail ''9.0.0.1'' 1, LReset ''9.0.0.2'',
      LFail ''9.0.0.1'' 2, LFail ''9.0.0.2'' 2, LFail ''9.0.0.1'' 3, LFail ''9.0.0.1'' 4]) =
    (if (5 :: int) < 4 + lockoutTime then Some (4 + lockoutTime - 5) else None)"
  by (rule limiter_locks [of _ _ _ 0 1 2 3 4]) (simp_all add: newLimiter_def limits)

text \<open>A token that is accepted was created at most \<open>sessionTTL\<close> ago.\<close>

lemma tok_valid_cases:
  assumes "tok_valid tok now m = (ok, m')"
  shows "m' \<subseteq>\<^sub>m m" "ok \<longleftrightarrow> tok \<noteq> [] \<and> (\<exists>e. m tok = Some e \<and> now \<le> e)"
  using assms by (auto simp: tok_valid_def map_le_def split: if_splits option.splits)

lemma create_cases:
  assumes "create rnd now m = Some (tok, m')"
  shows "m' = m(tok \<mapsto> now + sessionTTL)" "\<exists>b. rnd = Some b \<and> tok = hex_encode b"
  using assms by (auto simp: create_def Let_def split: option.splits)

end
