(* ===== verification/Api_Config.thy ===== *)
theory Api_Config
  imports Proxy_Server Api_Auth
begin

text \<open>
  Package \<open>api\<close>, files \<open>peerconfig.go\<close> and \<open>netauto.go\<close>: the text of the configuration a new
  client is given, and the guesses of the container's addresses. The QR code is made by a
  third-party package and the network interfaces are the system's: parameters.
\<close>

section \<open>peerconfig.go\<close>

record peerConfigReq =
  pq_PrivateKey :: string
  pq_Address :: string
  pq_PresharedKey :: string
  pq_Name :: string

definition newline :: char where "newline = CHR 0x0A"

text \<open>\<open>fmt.Fprintf(&b, "<k> = %s\n", v)\<close>.\<close>

definition conf_line :: "string \<Rightarrow> string \<Rightarrow> string" where
  "conf_line k v = k @ '' = '' @ v @ [newline]"

definition Utoa :: "u32 \<Rightarrow> string" where
  "Utoa h = nat_digits (unat h)"

definition renderClientConfig :: "Settings \<Rightarrow> string \<Rightarrow> peerConfigReq \<Rightarrow> string" where
  "renderClientConfig s serverKey req =
     (let ob = sv_Obfuscation (st_Server s) in
      ''[Interface]'' @ [newline] @
      conf_line ''PrivateKey'' (pq_PrivateKey req) @
      conf_line ''Address'' (pq_Address req) @
      (if sv_ClientDNS (st_Server s) \<noteq> [] then conf_line ''DNS'' (sv_ClientDNS (st_Server s)) else []) @
      conf_line ''Jc'' (Itoa (o_Jc ob)) @
      conf_line ''Jmin'' (Itoa (o_Jmin ob)) @
      conf_line ''Jmax'' (Itoa (o_Jmax ob)) @
      conf_line ''S1'' (Itoa (o_S1 ob)) @
      conf_line ''S2'' (Itoa (o_S2 ob)) @
      conf_line ''H1'' (Utoa (o_H1 ob)) @
      conf_line ''H2'' (Utoa (o_H2 ob)) @
      conf_line ''H3'' (Utoa (o_H3 ob)) @
      conf_line ''H4'' (Utoa (o_H4 ob)) @
      [newline] @ ''[Peer]'' @ [newline] @
      conf_line ''PublicKey'' serverKey @
      (if pq_PresharedKey req \<noteq> [] then conf_line ''PresharedKey'' (pq_PresharedKey req) else []) @
      conf_line ''AllowedIPs'' ''0.0.0.0/0, ::/0'' @
      conf_line ''Endpoint'' (sv_PublicEndpoint (st_Server s)) @
      conf_line ''PersistentKeepalive'' ''25'')"

section \<open>netauto.go\<close>

text \<open>An interface of \<open>net.Interfaces\<close> with the IPs of its addresses; an address that is not a
  \<open>*net.IPNet\<close> is \<open>None\<close>.\<close>

record nic =
  ni_loopback :: bool
  ni_up :: bool
  ni_addrs :: "ipaddr option list"

definition nic_ips :: "nic list \<Rightarrow> ipaddr list" where
  "nic_ips ifs = concat (map (\<lambda>i. List.map_filter (\<lambda>a. a) (ni_addrs i))
     (filter (\<lambda>i. \<not> ni_loopback i \<and> ni_up i) ifs))"

text \<open>\<open>net.IP\<close>: the methods see an IPv4 address in either of its two forms.\<close>

definition ip_to4 :: "ipaddr \<Rightarrow> bool" where
  "ip_to4 a = (case Unmap a of IP4 _ _ _ _ \<Rightarrow> True | _ \<Rightarrow> False)"

definition ip_IsLoopback :: "ipaddr \<Rightarrow> bool" where
  "ip_IsLoopback a = (case Unmap a of IP4 b _ _ _ \<Rightarrow> b = 127 | IP6 grps _ \<Rightarrow> grps = [0, 0, 0, 0, 0, 0, 0, 1]
     | IPNone \<Rightarrow> False)"

definition ip_IsLinkLocalUnicast :: "ipaddr \<Rightarrow> bool" where
  "ip_IsLinkLocalUnicast a = (case Unmap a of IP4 b c _ _ \<Rightarrow> b = 169 \<and> c = 254
     | IP6 grps _ \<Rightarrow> grps \<noteq> [] \<and> hd grps div 64 = 0xfe80 div 64 | IPNone \<Rightarrow> False)"

definition ip_string :: "ipaddr \<Rightarrow> string" where
  "ip_string a = addr_string (Unmap a)"

text \<open>\<open>None\<close>: \<open>net.Interfaces\<close> fails.\<close>

definition detectContainerAddr :: "nic list option \<Rightarrow> string" where
  "detectContainerAddr ifs =
     (case ifs of None \<Rightarrow> []
      | Some ifs \<Rightarrow>
          (case find (\<lambda>a. ip_to4 a \<and> \<not> ip_IsLoopback a) (nic_ips ifs) of
             None \<Rightarrow> [] | Some a \<Rightarrow> ip_string a))"

definition detectContainerAddr6 :: "nic list option \<Rightarrow> string" where
  "detectContainerAddr6 ifs =
     (case ifs of None \<Rightarrow> []
      | Some ifs \<Rightarrow>
          (case find (\<lambda>a. \<not> ip_to4 a \<and> \<not> ip_IsLoopback a \<and> \<not> ip_IsLinkLocalUnicast a) (nic_ips ifs) of
             None \<Rightarrow> [] | Some a \<Rightarrow> ip_string a))"

text \<open>\<open>strings.Split(s, "\n")\<close>.\<close>

fun split_lines :: "string \<Rightarrow> string list" where
  "split_lines [] = [[]]"
| "split_lines (c # cs) =
     (if c = newline then [] # split_lines cs
      else case split_lines cs of [] \<Rightarrow> [[c]] | l # ls \<Rightarrow> (c # l) # ls)"

text \<open>\<open>strings.Fields\<close>: \<open>cur\<close> is the field read so far.\<close>

function fields_loop :: "string \<Rightarrow> string \<Rightarrow> string list" where
  "fields_loop cur [] = (if cur = [] then [] else [cur])"
| "fields_loop cur (c # cs) =
     (case find (\<lambda>w. w \<noteq> [] \<and> has_prefix (c # cs) w) space_strings of
        Some w \<Rightarrow> (if cur = [] then [] else [cur]) @ fields_loop [] (drop (length w) (c # cs))
      | None \<Rightarrow> fields_loop (cur @ [c]) cs)"
  by pat_completeness auto
termination
proof (relation "measure (\<lambda>(cur, s). length s)")
  fix cur c cs w
  assume "find (\<lambda>w. w \<noteq> [] \<and> has_prefix (c # cs) w) space_strings = Some w"
  then have "w \<noteq> []" "has_prefix (c # cs) w" by (auto simp: find_Some_iff)
  then show "(([], drop (length w) (c # cs)), (cur, c # cs)) \<in> measure (\<lambda>(cur, s). length s)"
    using has_prefix_shorter [of w "c # cs"] by simp
qed auto

definition Fields :: "string \<Rightarrow> string list" where
  "Fields s = fields_loop [] s"

fun hex_decode :: "string \<Rightarrow> nat list option" where
  "hex_decode [] = Some []"
| "hex_decode [c] = None"
| "hex_decode (c # d # cs) = do { h \<leftarrow> hex_val c; l \<leftarrow> hex_val d; bs \<leftarrow> hex_decode cs; Some ((16 * h + l) # bs) }"

text \<open>The gateway of one line of \<open>/proc/net/route\<close>, if it is a default route.\<close>

definition route_gateway :: "string \<Rightarrow> string option" where
  "route_gateway line =
     (let f = Fields line in
      if length f < 3 \<or> f ! 1 \<noteq> ''00000000'' then None
      else case hex_decode (f ! 2) of
          None \<Rightarrow> None
        | Some raw \<Rightarrow> if length raw \<noteq> 4 then None
            else Some (ipv4_string [raw ! 3, raw ! 2, raw ! 1, raw ! 0]))"

fun first_gateway :: "string list \<Rightarrow> string" where
  "first_gateway [] = []"
| "first_gateway (l # ls) = (case route_gateway l of None \<Rightarrow> first_gateway ls | Some g \<Rightarrow> g)"

text \<open>\<open>None\<close>: the file cannot be read.\<close>

definition detectGateway :: "string option \<Rightarrow> string" where
  "detectGateway file = (case file of None \<Rightarrow> [] | Some data \<Rightarrow> first_gateway (drop 1 (split_lines data)))"

section \<open>Reading a configuration back\<close>

text \<open>The value of a key in a configuration text: of the first line \<open>key = value\<close>.\<close>

fun conf_get :: "string \<Rightarrow> string list \<Rightarrow> string option" where
  "conf_get k [] = None"
| "conf_get k (l # ls) =
     (case CutPrefix l (k @ '' = '') of Some v \<Rightarrow> Some v | None \<Rightarrow> conf_get k ls)"

lemma split_lines_append: "newline \<notin> set l \<Longrightarrow> split_lines (l @ newline # r) = l # split_lines r"
  by (induction l) auto

definition entry :: "string \<Rightarrow> string \<Rightarrow> string" where
  "entry k v = k @ '' = '' @ v"

lemma split_conf_line:
  "newline \<notin> set k \<Longrightarrow> newline \<notin> set v \<Longrightarrow>
     split_lines (conf_line k v @ r) = entry k v # split_lines r"
  using split_lines_append [of "k @ '' = '' @ v" r] by (simp add: conf_line_def newline_def entry_def)

lemma newline_not_digits: "newline \<notin> set (nat_digits n)" "newline \<notin> set (Itoa i)" "newline \<notin> set (Utoa h)"
proof -
  have "\<not> is_digit newline" by (simp add: is_digit_def newline_def)
  then show d: "newline \<notin> set (nat_digits n)" for n using nat_digits_digits by blast
  then show "newline \<notin> set (Itoa i)" "newline \<notin> set (Utoa h)"
    by (simp_all add: Itoa_def Utoa_def newline_def)
qed

lemma prefix_key:
  assumes "CHR '' '' \<notin> set k" "CHR '' '' \<notin> set k'"
  shows "CutPrefix (k' @ '' = '' @ v) (k @ '' = '') = (if k = k' then Some v else None)"
proof -
  have w: "takeWhile (\<lambda>c. c \<noteq> CHR '' '') (l @ CHR '' '' # r) = l" if "CHR '' '' \<notin> set l" for l r
    using that by (subst takeWhile_append2) auto
  have "has_prefix (k' @ '' = '' @ v) (k @ '' = '') \<longleftrightarrow> k = k'"
  proof
    assume "has_prefix (k' @ '' = '' @ v) (k @ '' = '')"
    then obtain r where "k' @ '' = '' @ v = (k @ '' = '') @ r"
      unfolding has_prefix_def by (metis append_take_drop_id)
    then have "takeWhile (\<lambda>c. c \<noteq> CHR '' '') (k' @ CHR '' '' # ''= '' @ v) =
        takeWhile (\<lambda>c. c \<noteq> CHR '' '') (k @ CHR '' '' # ''= '' @ r)" by simp
    with w [OF assms(1)] w [OF assms(2)] show "k = k'" by simp
  qed (simp add: has_prefix_def)
  then show ?thesis by (auto simp: CutPrefix_def)
qed

lemma conf_get_line:
  "CHR '' '' \<notin> set k \<Longrightarrow> CHR '' '' \<notin> set k' \<Longrightarrow>
     conf_get k (entry k' v # ls) = (if k = k' then Some v else conf_get k ls)"
  using prefix_key [of k k' v] by (simp add: entry_def)

lemma conf_get_skip:
  assumes "CHR '' '' \<notin> set l" shows "conf_get k (l # ls) = conf_get k ls"
proof -
  have "CHR '' '' \<in> set (take n l)" if "take n l = k @ '' = ''" for n using that by simp
  with assms have "CutPrefix l (k @ '' = '') = None"
    by (metis CutPrefix_def has_prefix_def in_set_takeD)
  then show ?thesis by simp
qed

text \<open>The configuration as a list of entries.\<close>

lemma split_rendered:
  assumes "newline \<notin> set (pq_PrivateKey req)" "newline \<notin> set (pq_Address req)"
    "newline \<notin> set (pq_PresharedKey req)" "newline \<notin> set serverKey"
    "newline \<notin> set (sv_ClientDNS (st_Server s))" "newline \<notin> set (sv_PublicEndpoint (st_Server s))"
    "ob = sv_Obfuscation (st_Server s)"
  shows "split_lines (renderClientConfig s serverKey req) =
    ''[Interface]'' # entry ''PrivateKey'' (pq_PrivateKey req) # entry ''Address'' (pq_Address req) #
    (if sv_ClientDNS (st_Server s) = [] then [] else [entry ''DNS'' (sv_ClientDNS (st_Server s))]) @
    [entry ''Jc'' (Itoa (o_Jc ob)), entry ''Jmin'' (Itoa (o_Jmin ob)), entry ''Jmax'' (Itoa (o_Jmax ob)),
     entry ''S1'' (Itoa (o_S1 ob)), entry ''S2'' (Itoa (o_S2 ob)), entry ''H1'' (Utoa (o_H1 ob)),
     entry ''H2'' (Utoa (o_H2 ob)), entry ''H3'' (Utoa (o_H3 ob)), entry ''H4'' (Utoa (o_H4 ob)),
     [], ''[Peer]'', entry ''PublicKey'' serverKey] @
    (if pq_PresharedKey req = [] then [] else [entry ''PresharedKey'' (pq_PresharedKey req)]) @
    [entry ''AllowedIPs'' ''0.0.0.0/0, ::/0'', entry ''Endpoint'' (sv_PublicEndpoint (st_Server s)),
     entry ''PersistentKeepalive'' ''25'', []]"
proof -
  have last: "split_lines (conf_line ''PersistentKeepalive'' ''25'') = [entry ''PersistentKeepalive'' ''25'', []]"
    using split_conf_line [of "''PersistentKeepalive''" "''25''" "[]"] by (simp add: newline_def)
  have nl: "split_lines ([newline] @ r) = [] # split_lines r" for r by simp
  have hdr: "split_lines (''[Interface]'' @ [newline] @ r) = ''[Interface]'' # split_lines r"
    "split_lines (''[Peer]'' @ [newline] @ r) = ''[Peer]'' # split_lines r" for r
    using split_lines_append [of "''[Interface]''" r] split_lines_append [of "''[Peer]''" r]
    by (simp_all add: newline_def)
  note keep = split_conf_line [OF _ assms(1)] split_conf_line [OF _ assms(2)] split_conf_line [OF _ assms(3)]
    split_conf_line [OF _ assms(4)] split_conf_line [OF _ assms(5)] split_conf_line [OF _ assms(6)]
    split_conf_line [OF _ newline_not_digits(2)] split_conf_line [OF _ newline_not_digits(3)]
  have k: "newline \<notin> set ''PrivateKey''" "newline \<notin> set ''Address''" "newline \<notin> set ''DNS''"
    "newline \<notin> set ''Jc''" "newline \<notin> set ''Jmin''" "newline \<notin> set ''Jmax''" "newline \<notin> set ''S1''"
    "newline \<notin> set ''S2''" "newline \<notin> set ''H1''" "newline \<notin> set ''H2''" "newline \<notin> set ''H3''"
    "newline \<notin> set ''H4''" "newline \<notin> set ''PublicKey''" "newline \<notin> set ''PresharedKey''"
    "newline \<notin> set ''Endpoint''" by (simp_all add: newline_def)
  have ips: "split_lines (conf_line ''AllowedIPs'' ''0.0.0.0/0, ::/0'' @ r) =
      entry ''AllowedIPs'' ''0.0.0.0/0, ::/0'' # split_lines r" for r
    by (rule split_conf_line) (simp_all add: newline_def)
  show ?thesis
    unfolding renderClientConfig_def Let_def assms(7)
    by (cases "sv_ClientDNS (st_Server s) = []"; cases "pq_PresharedKey req = []";
        simp only: hdr [unfolded append_Cons append_Nil] nl [unfolded append_Cons append_Nil] last ips keep k append_Nil append_Cons if_True if_False simp_thms append_assoc)
qed

lemmas conf_get_simps = conf_get_line conf_get_skip

section \<open>Properties\<close>

text \<open>
  C38. The configuration a new client is given matches the proxy: read back line by line, every
  obfuscation parameter is the one the server-mode stack of the same settings runs with, and
  the keys, the address and the endpoint are those that were asked for, as long as the values
  from outside hold no line break.
\<close>

theorem client_config_matches_server:
  assumes "st_Mode s \<noteq> ModeClient" "s = withDefaults s0"
    and "\<forall>v \<in> {pq_PrivateKey req, pq_Address req, pq_PresharedKey req, serverKey,
      sv_ClientDNS (st_Server s), sv_PublicEndpoint (st_Server s)}. newline \<notin> set v"
  shows "let conf = split_lines (renderClientConfig s serverKey req); p = params_of (ToConfig s) in
    conf_get ''S1'' conf = Some (Itoa (pS1 p)) \<and> conf_get ''S2'' conf = Some (Itoa (pS2 p)) \<and>
    conf_get ''H1'' conf = Some (Utoa (pH1 p)) \<and> conf_get ''H2'' conf = Some (Utoa (pH2 p)) \<and>
    conf_get ''H3'' conf = Some (Utoa (pH3 p)) \<and> conf_get ''H4'' conf = Some (Utoa (pH4 p)) \<and>
    conf_get ''Jc'' conf = Some (Itoa (pJc p)) \<and> conf_get ''Jmin'' conf = Some (Itoa (pJmin p)) \<and>
    conf_get ''Jmax'' conf = Some (Itoa (pJmax p)) \<and>
    conf_get ''PrivateKey'' conf = Some (pq_PrivateKey req) \<and>
    conf_get ''Address'' conf = Some (pq_Address req) \<and>
    conf_get ''PublicKey'' conf = Some serverKey \<and>
    conf_get ''Endpoint'' conf = Some (sv_PublicEndpoint (st_Server s)) \<and>
    conf_get ''PresharedKey'' conf = (if pq_PresharedKey req = [] then None else Some (pq_PresharedKey req))"
proof -
  have p: "params_of (ToConfig s) = (let ob = sv_Obfuscation (st_Server s) in
      \<lparr>pH1 = o_H1 ob, pH2 = o_H2 ob, pH3 = o_H3 ob, pH4 = o_H4 ob, pS1 = o_S1 ob, pS2 = o_S2 ob,
       pJc = o_Jc ob, pJmin = o_Jmin ob, pJmax = o_Jmax ob\<rparr>)"
  proof -
    have "st_Mode (withDefaults s) \<noteq> ModeClient" "st_Server (withDefaults s) = st_Server s"
      using assms(1,2) by simp_all
    then show ?thesis
      by (simp add: ToConfig_def Let_def fillServer_def fillObfuscation_def params_of_def)
  qed
  have lines: "split_lines (renderClientConfig s serverKey req) =
    ''[Interface]'' # entry ''PrivateKey'' (pq_PrivateKey req) # entry ''Address'' (pq_Address req) #
    (if sv_ClientDNS (st_Server s) = [] then [] else [entry ''DNS'' (sv_ClientDNS (st_Server s))]) @
    [entry ''Jc'' (Itoa (pJc (params_of (ToConfig s)))), entry ''Jmin'' (Itoa (pJmin (params_of (ToConfig s)))),
     entry ''Jmax'' (Itoa (pJmax (params_of (ToConfig s)))), entry ''S1'' (Itoa (pS1 (params_of (ToConfig s)))),
     entry ''S2'' (Itoa (pS2 (params_of (ToConfig s)))), entry ''H1'' (Utoa (pH1 (params_of (ToConfig s)))),
     entry ''H2'' (Utoa (pH2 (params_of (ToConfig s)))), entry ''H3'' (Utoa (pH3 (params_of (ToConfig s)))),
     entry ''H4'' (Utoa (pH4 (params_of (ToConfig s)))),
     [], ''[Peer]'', entry ''PublicKey'' serverKey] @
    (if pq_PresharedKey req = [] then [] else [entry ''PresharedKey'' (pq_PresharedKey req)]) @
    [entry ''AllowedIPs'' ''0.0.0.0/0, ::/0'', entry ''Endpoint'' (sv_PublicEndpoint (st_Server s)),
     entry ''PersistentKeepalive'' ''25'', []]"
    using assms(3) by (subst split_rendered [OF _ _ _ _ _ _ refl]) (simp_all add: p Let_def)
  show ?thesis
    unfolding lines Let_def
    by (cases "sv_ClientDNS (st_Server s) = []"; cases "pq_PresharedKey req = []")
       (simp_all add: conf_get_simps del: conf_get.simps(2))
qed

definition demo_req :: peerConfigReq where
  "demo_req = \<lparr>pq_PrivateKey = ''k'', pq_Address = ''9.0.0.2/32'', pq_PresharedKey = [], pq_Name = ''n''\<rparr>"

theorem client_config_matches_server_witness:
  "conf_get ''Jc'' (split_lines (renderClientConfig (withDefaults demo_service) ''s'' demo_req)) = Some (Itoa 4)"
proof -
  have "st_Mode (withDefaults demo_service) \<noteq> ModeClient"
    by (simp add: withDefaults_def demo_service_def Let_def or_str_def zeroSettings_def defMode_def
        ModeServer_def ModeClient_def)
  moreover have "\<forall>v \<in> {pq_PrivateKey demo_req, pq_Address demo_req, pq_PresharedKey demo_req, ''s'',
      sv_ClientDNS (st_Server (withDefaults demo_service)),
      sv_PublicEndpoint (st_Server (withDefaults demo_service))}. newline \<notin> set v"
    by (simp add: demo_req_def newline_def withDefaults_def demo_service_def Let_def zeroSettings_def zeroServer_def)
  moreover have "Itoa (pJc (params_of (ToConfig (withDefaults demo_service)))) = Itoa 4"
    by (simp add: params_of_def ToConfig_def withDefaults_def demo_service_def Let_def or_str_def zeroSettings_def
        zeroServer_def zeroObfuscation_def defaultObfuscation_def or_int_def defJc_def defMode_def ModeServer_def
        ModeClient_def fillServer_def fillObfuscation_def)
  ultimately show ?thesis
    using client_config_matches_server [of "withDefaults demo_service" demo_service demo_req "''s''"]
    by (simp add: Let_def del: conf_get.simps)
qed

end
