(* ===== verification/Router_Peers.thy ===== *)
theory Router_Peers
  imports Router_Api
begin

text \<open>
  Package \<open>router\<close>, files \<open>peers.go\<close> and \<open>iface.go\<close>: the client the web interface manages the
  WireGuard peers and the interface with. A \<open>Client\<close> is its \<open>Config\<close>; the commands \<open>ros\<close> are
  those of that \<open>Config\<close>.
\<close>

section \<open>Peers\<close>

record Peer =
  p_ID :: string
  p_Interface :: string
  p_Disabled :: bool
  p_Name :: string
  p_Comment :: string
  p_PublicKey :: string
  p_PrivateKey :: string
  p_PresharedKey :: string
  p_AllowedAddress :: string
  p_EndpointAddress :: string
  p_EndpointPort :: string
  p_PersistentKeepalive :: string
  p_CurrentEndpoint :: string
  p_Rx :: string
  p_Tx :: string
  p_LastHandshake :: string

definition peerFromMap :: "row \<Rightarrow> Peer" where
  "peerFromMap m =
     (let ce = fld m ''current-endpoint-address'';
          ce = (if ce \<noteq> [] \<and> fld m ''current-endpoint-port'' \<noteq> []
                then ce @ '':'' @ fld m ''current-endpoint-port'' else ce)
      in \<lparr>p_ID = fld m ''.id'', p_Interface = fld m ''interface'',
          p_Disabled = (fld m ''disabled'' = ''true''), p_Name = fld m ''name'',
          p_Comment = fld m ''comment'', p_PublicKey = fld m ''public-key'',
          p_PrivateKey = fld m ''private-key'', p_PresharedKey = fld m ''preshared-key'',
          p_AllowedAddress = fld m ''allowed-address'', p_EndpointAddress = fld m ''endpoint-address'',
          p_EndpointPort = fld m ''endpoint-port'', p_PersistentKeepalive = fld m ''persistent-keepalive'',
          p_CurrentEndpoint = ce, p_Rx = fld m ''rx'', p_Tx = fld m ''tx'',
          p_LastHandshake = fld m ''last-handshake''\<rparr>)"

text \<open>\<open>Client.Verify\<close>: the address is formed as in the dialer.\<close>

definition cl_Verify :: "'w transport \<Rightarrow> rconfig \<Rightarrow> 'w \<Rightarrow> (gerror + unit) \<times> 'w" where
  "cl_Verify tr c w =
     Verify tr (rc_Address c @ '':'' @ Itoa (rc_APIPort c)) (rc_APITLS c) (rc_User c) (rc_Password c) w"

record Interface =
  if_Name :: string
  if_PublicKey :: string
  if_ListenPort :: string
  if_Address :: string

record Address =
  ad_Interface :: string
  ad_Address :: string

text \<open>\<open>ifaceAddrs\<close>: the first enabled address of every interface; no addresses on an error.\<close>

fun first_addrs :: "row list \<Rightarrow> row \<Rightarrow> row" where
  "first_addrs [] m = m"
| "first_addrs (r # rs) m =
     first_addrs rs
       (if fld r ''disabled'' = ''true'' then m
        else if map_of m (fld r ''interface'') = None
        then AList.update (fld r ''interface'') (fld r ''address'') m else m)"

definition ifaceAddrs :: "'s ros \<Rightarrow> 's \<Rightarrow> row \<times> 's" where
  "ifaceAddrs ros s =
     (case ros_print ros ''/ip/address'' s of
        (Inl e, s) \<Rightarrow> ([], s)
      | (Inr rows, s) \<Rightarrow> (first_addrs rows [], s))"

definition ListInterfaces :: "'s ros \<Rightarrow> 's \<Rightarrow> (gerror + Interface list) \<times> 's" where
  "ListInterfaces ros s =
     (case ros_print ros ''/interface/wireguard'' s of
        (Inl e, s) \<Rightarrow> (Inl e, s)
      | (Inr rows, s) \<Rightarrow>
          (case ifaceAddrs ros s of (addrs, s) \<Rightarrow>
             (Inr (map (\<lambda>it. \<lparr>if_Name = fld it ''name'', if_PublicKey = fld it ''public-key'',
                 if_ListenPort = fld it ''listen-port'', if_Address = fld addrs (fld it ''name'')\<rparr>) rows), s)))"

definition ServerKey :: "'s ros \<Rightarrow> rconfig \<Rightarrow> 's \<Rightarrow> (gerror + string) \<times> 's" where
  "ServerKey ros c s =
     (case ListInterfaces ros s of
        (Inl e, s) \<Rightarrow> (Inl e, s)
      | (Inr ifs, s) \<Rightarrow>
          (case find (\<lambda>it. if_Name it = rc_Iface c) ifs of
             Some it \<Rightarrow> (Inr (if_PublicKey it), s)
           | None \<Rightarrow> (Inl (Msg (''interface '' @ rc_Iface c @ '' not found'')), s)))"

definition ListAddresses :: "'s ros \<Rightarrow> 's \<Rightarrow> (gerror + Address list) \<times> 's" where
  "ListAddresses ros s =
     (case ros_print ros ''/ip/address'' s of
        (Inl e, s) \<Rightarrow> (Inl e, s)
      | (Inr rows, s) \<Rightarrow>
          (Inr (map (\<lambda>r. \<lparr>ad_Interface = fld r ''interface'', ad_Address = fld r ''address''\<rparr>)
             (filter (\<lambda>r. fld r ''disabled'' \<noteq> ''true'') rows)), s))"

definition ListPeers :: "'s ros \<Rightarrow> rconfig \<Rightarrow> 's \<Rightarrow> (gerror + Peer list) \<times> 's" where
  "ListPeers ros c s =
     (case ros_print ros ''/interface/wireguard/peers'' s of
        (Inl e, s) \<Rightarrow> (Inl e, s)
      | (Inr rows, s) \<Rightarrow>
          (Inr (map peerFromMap (filter (\<lambda>r. fld r ''interface'' = rc_Iface c) rows)), s))"

definition boolStr :: "bool \<Rightarrow> string" where
  "boolStr b = (if b then ''true'' else ''false'')"

definition numericField :: "string \<Rightarrow> bool" where
  "numericField k \<longleftrightarrow> k = ''endpoint-port'' \<or> k = ''persistent-keepalive''"

definition body :: "rconfig \<Rightarrow> Peer \<Rightarrow> bool \<Rightarrow> row" where
  "body c p withIface =
     (let m = [(''name'', p_Name p), (''allowed-address'', p_AllowedAddress p),
               (''endpoint-address'', p_EndpointAddress p), (''endpoint-port'', p_EndpointPort p),
               (''persistent-keepalive'', p_PersistentKeepalive p), (''preshared-key'', p_PresharedKey p),
               (''comment'', p_Comment p), (''disabled'', boolStr (p_Disabled p))];
          m = (if p_PrivateKey p \<noteq> [] then AList.update ''private-key'' (p_PrivateKey p) m
               else AList.update ''public-key'' (p_PublicKey p) m);
          m = (if withIface then AList.update ''interface'' (rc_Iface c) m else m)
      in filter (\<lambda>(k, v). \<not> (v = [] \<and> numericField k)) m)"

definition AddPeer :: "'s ros \<Rightarrow> rconfig \<Rightarrow> Peer \<Rightarrow> 's \<Rightarrow> gerror option \<times> 's" where
  "AddPeer ros c p s =
     (case ros_add ros ''/interface/wireguard/peers'' (body c p True) s of
        (Inl e, s) \<Rightarrow> (Some e, s) | (Inr _, s) \<Rightarrow> (None, s))"

definition err_of :: "(gerror + 'a) \<times> 's \<Rightarrow> gerror option \<times> 's" where
  "err_of r = (case r of (Inl e, s) \<Rightarrow> (Some e, s) | (Inr _, s) \<Rightarrow> (None, s))"

definition UpdatePeer :: "'s ros \<Rightarrow> rconfig \<Rightarrow> string \<Rightarrow> Peer \<Rightarrow> 's \<Rightarrow> gerror option \<times> 's" where
  "UpdatePeer ros c pid p s =
     (if pid = [] then (Some (Msg ''peer id required''), s)
      else err_of (ros_set ros ''/interface/wireguard/peers'' pid (body c p False) s))"

definition SetDisabled :: "'s ros \<Rightarrow> string \<Rightarrow> bool \<Rightarrow> 's \<Rightarrow> gerror option \<times> 's" where
  "SetDisabled ros pid disabled s =
     (if pid = [] then (Some (Msg ''peer id required''), s)
      else err_of (ros_set ros ''/interface/wireguard/peers'' pid [(''disabled'', boolStr disabled)] s))"

definition DeletePeer :: "'s ros \<Rightarrow> string \<Rightarrow> 's \<Rightarrow> gerror option \<times> 's" where
  "DeletePeer ros pid s =
     (if pid = [] then (Some (Msg ''peer id required''), s)
      else err_of (ros_remove ros ''/interface/wireguard/peers'' pid s))"

section \<open>The interface\<close>

definition normalizeIfaceAddress :: "string \<Rightarrow> string" where
  "normalizeIfaceAddress addr =
     (let addr = TrimSpace addr in
      if addr = [] \<or> CHR '':'' \<in> set addr then addr
      else case index_byte addr CHR ''/'' of
          None \<Rightarrow> addr @ ''/24''
        | Some slash \<Rightarrow>
            if drop (slash + 1) addr = ''32'' then take slash addr @ ''/24'' else addr)"

text \<open>The address part of \<open>SetInterface\<close>.\<close>

definition set_address :: "'s ros \<Rightarrow> rconfig \<Rightarrow> string \<Rightarrow> 's \<Rightarrow> gerror option \<times> 's" where
  "set_address ros c address s =
     (case ros_print ros ''/ip/address'' s of
        (Inl e, s) \<Rightarrow> (Some (Wrap ''list addresses'' e), s)
      | (Inr addrs, s) \<Rightarrow>
          (case map (\<lambda>r. fld r ''.id'') (filter (\<lambda>r. fld r ''interface'' = rc_Iface c) addrs) of
             [] \<Rightarrow>
               (case ros_add ros ''/ip/address'' [(''interface'', rc_Iface c), (''address'', address)] s of
                  (Inl e, s) \<Rightarrow> (Some (Wrap ''add address'' e), s) | (Inr _, s) \<Rightarrow> (None, s))
           | existing # _ \<Rightarrow>
               (case ros_set ros ''/ip/address'' existing [(''address'', address)] s of
                  (Inl e, s) \<Rightarrow> (Some (Wrap ''update address'' e), s) | (Inr _, s) \<Rightarrow> (None, s))))"

definition SetInterface :: "'s ros \<Rightarrow> rconfig \<Rightarrow> string \<Rightarrow> string \<Rightarrow> 's \<Rightarrow> gerror option \<times> 's" where
  "SetInterface ros c privateKey address s =
     (let address = normalizeIfaceAddress address in
      case ros_print ros ''/interface/wireguard'' s of
        (Inl e, s) \<Rightarrow> (Some e, s)
      | (Inr ifaces, s) \<Rightarrow>
     (let ifaceID = (case find (\<lambda>it. fld it ''name'' = rc_Iface c) ifaces of
            None \<Rightarrow> [] | Some it \<Rightarrow> fld it ''.id'')
      in if ifaceID = [] then (Some (Msg (''interface '' @ rc_Iface c @ '' not found'')), s)
         else
           (case (if privateKey \<noteq> []
                  then err_of (ros_set ros ''/interface/wireguard'' ifaceID [(''private-key'', privateKey)] s)
                  else (None, s)) of
              (Some e, s) \<Rightarrow> (Some (Wrap ''set private-key'' e), s)
            | (None, s) \<Rightarrow> if address = [] then (None, s) else set_address ros c address s)))"

section \<open>Lemmas\<close>

lemma body_keys: "distinct (map fst (body c p w))"
  by (simp add: body_def Let_def distinct_map_filter numericField_def)

lemma body_no_id: "''.id'' \<notin> fst ` set (body c p w)"
  by (auto simp: body_def Let_def split: if_splits)

lemma set_map_update: "r \<in> set t \<Longrightarrow> f r \<in> set (map f t)"
  by simp

text \<open>The fields \<open>body\<close> sends, as a map.\<close>

definition body_map :: "rconfig \<Rightarrow> Peer \<Rightarrow> bool \<Rightarrow> string \<rightharpoonup> string" where
  "body_map c p w =
     (let m = map_of [(''name'', p_Name p), (''allowed-address'', p_AllowedAddress p),
               (''endpoint-address'', p_EndpointAddress p), (''endpoint-port'', p_EndpointPort p),
               (''persistent-keepalive'', p_PersistentKeepalive p), (''preshared-key'', p_PresharedKey p),
               (''comment'', p_Comment p), (''disabled'', boolStr (p_Disabled p))];
          m = (if p_PrivateKey p \<noteq> [] then m(''private-key'' \<mapsto> p_PrivateKey p)
               else m(''public-key'' \<mapsto> p_PublicKey p))
      in if w then m(''interface'' \<mapsto> rc_Iface c) else m)"

lemma map_of_filter_distinct:
  "distinct (map fst xs) \<Longrightarrow> map_of (filter (\<lambda>(k, v). Q k v) xs) k =
     (case map_of xs k of None \<Rightarrow> None | Some v \<Rightarrow> if Q k v then Some v else None)"
  by (induction xs) (auto simp: map_of_eq_None_iff split: option.split)

lemma map_of_body:
  "map_of (body c p w) k = (case body_map c p w k of None \<Rightarrow> None
     | Some v \<Rightarrow> if v = [] \<and> numericField k then None else Some v)"
proof -
  let ?m = "[(''name'', p_Name p), (''allowed-address'', p_AllowedAddress p),
               (''endpoint-address'', p_EndpointAddress p), (''endpoint-port'', p_EndpointPort p),
               (''persistent-keepalive'', p_PersistentKeepalive p), (''preshared-key'', p_PresharedKey p),
               (''comment'', p_Comment p), (''disabled'', boolStr (p_Disabled p))]"
  let ?m1 = "if p_PrivateKey p \<noteq> [] then AList.update ''private-key'' (p_PrivateKey p) ?m
               else AList.update ''public-key'' (p_PublicKey p) ?m"
  let ?m2 = "if w then AList.update ''interface'' (rc_Iface c) ?m1 else ?m1"
  have "map_of ?m2 = body_map c p w"
    unfolding body_map_def Let_def by (simp only: if_distrib [of map_of] update_conv' cong: if_cong)
  moreover have d: "distinct (map fst ?m)" by simp
  have "distinct (map fst ?m2)"
    by (simp only: distinct_update d simp_thms split: if_split)
  moreover have "body c p w = filter (\<lambda>(k, v). \<not> (v = [] \<and> numericField k)) ?m2"
    unfolding body_def Let_def ..
  ultimately show ?thesis
    by (simp only: map_of_filter_distinct) (simp add: if_distrib split: option.split)
qed

lemmas body_fld = map_of_body body_map_def numericField_def

lemma fld_body_None: "map_of (body c p w) k = None \<Longrightarrow> fld (body c p w) k = []"
  by (simp add: fld_def)

lemma fld_set_body:
  "fld (set_fields (body c p w) r) k = (case map_of (body c p w) k of None \<Rightarrow> fld r k | Some v \<Rightarrow> v)"
  by (rule fld_set_fields [OF body_keys])

section \<open>Properties\<close>


definition zeroPeer :: Peer where
  "zeroPeer = \<lparr>p_ID = [], p_Interface = [], p_Disabled = False, p_Name = [], p_Comment = [],
     p_PublicKey = [], p_PrivateKey = [], p_PresharedKey = [], p_AllowedAddress = [],
     p_EndpointAddress = [], p_EndpointPort = [], p_PersistentKeepalive = [], p_CurrentEndpoint = [],
     p_Rx = [], p_Tx = [], p_LastHandshake = []\<rparr>"

definition demo_peers_cfg :: rconfig where
  "demo_peers_cfg = \<lparr>rc_Address = ''r'', rc_APIPort = 8728, rc_APITLS = False, rc_User = ''u'',
     rc_Password = ''p'', rc_Iface = ''wg1'', rc_Interval = 1, rc_Mode = ModeServer\<rparr>"



definition demo_peers :: "string \<Rightarrow> row list" where
  "demo_peers _ = [[(''.id'', ''*1''), (''comment'', ''[awgproxy] home''), (''endpoint-port'', ''51820'')]]"


end
