(* ===== verification/Api_Server.thy ===== *)
theory Api_Server
  imports Api_Config Router_Peers
begin

text \<open>
  Package \<open>api\<close>, file \<open>server.go\<close>: the web interface. A request is routed to a handler; the
  handlers behind \<open>protect\<close> and the static files run only for a session, unless no
  authentication is required. What a request finds outside (the clock, whether the router's
  port can be reached, the file system, the router) is its environment.
\<close>

section \<open>State, requests, responses\<close>

record 'w web =
  wb_auth :: tokens
  wb_limit :: limiter
  wb_reachKey :: string
  wb_reachAt :: "int option"
  wb_reachOK :: bool
  wb_file :: cfile               \<comment> \<open>the configuration file\<close>
  wb_saved :: nat                \<comment> \<open>how often \<open>onSaved\<close> was called\<close>
  wb_rst :: "'w rstate"          \<comment> \<open>dialers and router\<close>

definition newWeb :: "cfile \<Rightarrow> 'w rstate \<Rightarrow> 'w web" where
  "newWeb f rst = \<lparr>wb_auth = newSessions, wb_limit = newLimiter, wb_reachKey = [], wb_reachAt = None,
     wb_reachOK = False, wb_file = f, wb_saved = 0, wb_rst = rst\<rparr>"

record 'w wenv =
  we_lib :: jsonlib
  we_wfile :: "string \<Rightarrow> cfile \<Rightarrow> bool \<times> cfile"
  we_tr :: "'w transport"
  we_noauth :: string            \<comment> \<open>\<open>AWGPROXY_NO_AUTH\<close>\<close>
  we_dial :: "string \<Rightarrow> bool"    \<comment> \<open>\<open>net.DialTimeout\<close> succeeds\<close>
  we_now :: int                  \<comment> \<open>the clock at the start of the handler\<close>
  we_later :: int                \<comment> \<open>and after it has waited for the network\<close>
  we_rnd :: "bytes option"       \<comment> \<open>32 bytes of \<open>rand.Read\<close>\<close>
  we_snap :: "Snapshot option"   \<comment> \<open>of the current poller\<close>
  we_cr :: xcrypto
  we_qr :: "string \<Rightarrow> string option"   \<comment> \<open>\<open>qrcode.Encode\<close> in base64\<close>
  we_nics :: "nic list option"
  we_route :: "string option"    \<comment> \<open>\<open>/proc/net/route\<close>\<close>
  we_loginPage :: "string option"
  we_static :: "string \<Rightarrow> int \<times> string" \<comment> \<open>the file server over the embedded files\<close>
  we_version :: "string \<times> string"      \<comment> \<open>set by the linker\<close>

text \<open>The path as its segments, with an empty last one behind a trailing slash; the body as the
  first JSON value in it, if it has one.\<close>

record request =
  rq_method :: string
  rq_segs :: "string list"
  rq_path :: string              \<comment> \<open>\<open>r.URL.Path\<close>\<close>
  rq_cookie :: "string option"
  rq_body :: "json option"
  rq_remote :: string
  rq_section :: string           \<comment> \<open>the query parameters used\<close>
  rq_next :: string

text \<open>A response carries JSON, a page, or an error: \<open>fail\<close> writes \<open>{"error": err.Error()}\<close>.\<close>

datatype content = Json json | Page string | Failure gerror

record response =
  rp_code :: int
  rp_content :: content
  rp_cookie :: "(string \<times> int) option"    \<comment> \<open>value and \<open>MaxAge\<close>\<close>
  rp_location :: string                    \<comment> \<open>the URL given to \<open>http.Redirect\<close>\<close>
  rp_retryAfter :: string

definition respond :: "int \<Rightarrow> content \<Rightarrow> response" where
  "respond code c = \<lparr>rp_code = code, rp_content = c, rp_cookie = None, rp_location = [], rp_retryAfter = []\<rparr>"

definition writeJSON :: "int \<Rightarrow> json \<Rightarrow> response" where
  "writeJSON code j = respond code (Json j)"

definition fail :: "int \<Rightarrow> gerror \<Rightarrow> response" where
  "fail code e = respond code (Failure e)"

definition redirect :: "string \<Rightarrow> response" where
  "redirect url = (respond 302 (Page []))\<lparr>rp_location := url\<rparr>"

definition ok_json :: json where "ok_json = JObj [(''ok'', JBool True)]"

definition status_json :: "string \<Rightarrow> json" where "status_json s = JObj [(''status'', JStr s)]"

section \<open>Authentication\<close>

definition reachCacheTTL :: int where "reachCacheTTL = 10 * secondNs"

definition routerReachable :: "'w wenv \<Rightarrow> Settings \<Rightarrow> 'w web \<Rightarrow> bool \<times> 'w web" where
  "routerReachable en st w =
     (let rt = ActiveRouter st;
          addr = JoinHostPort (rs_Address rt) (Itoa (rs_APIPort rt))
      in if wb_reachKey w = addr \<and> since (we_now en) (wb_reachAt w) < reachCacheTTL
         then (wb_reachOK w, w)
         else (let ok = we_dial en addr in
               (ok, w\<lparr>wb_reachKey := addr, wb_reachAt := Some (we_later en), wb_reachOK := ok\<rparr>)))"

definition authRequired :: "'w wenv \<Rightarrow> 'w web \<Rightarrow> bool \<times> 'w web" where
  "authRequired en w =
     (if we_noauth en = ''1'' \<or> we_noauth en = ''true'' then (False, w)
      else case Read (we_lib en) (wb_file w) of
          Inl e \<Rightarrow> (False, w)
        | Inr st \<Rightarrow>
            if rs_Address (ActiveRouter st) = [] then (False, w)
            else routerReachable en st w)"

definition authed :: "'w wenv \<Rightarrow> request \<Rightarrow> 'w web \<Rightarrow> bool \<times> 'w web" where
  "authed en r w =
     (case rq_cookie r of
        None \<Rightarrow> (False, w)
      | Some tok \<Rightarrow>
          (case tok_valid tok (we_now en) (wb_auth w) of (ok, m) \<Rightarrow> (ok, w\<lparr>wb_auth := m\<rparr>)))"

type_synonym 'w handler = "'w wenv \<Rightarrow> request \<Rightarrow> 'w web \<Rightarrow> response \<times> 'w web"

text \<open>Whether \<open>protect\<close> and \<open>gateStatic\<close> let a request through: \<open>authRequired\<close> first, the
  session only if needed.\<close>

definition permitted :: "'w wenv \<Rightarrow> request \<Rightarrow> 'w web \<Rightarrow> bool \<times> 'w web" where
  "permitted en r w =
     (case authRequired en w of
        (False, w) \<Rightarrow> (True, w)
      | (True, w) \<Rightarrow> authed en r w)"

definition protect :: "'w handler \<Rightarrow> 'w handler" where
  "protect h en r w =
     (case permitted en r w of
        (True, w) \<Rightarrow> h en r w
      | (False, w) \<Rightarrow> (fail 401 (Msg ''authentication required''), w))"

text \<open>\<open>url.QueryEscape\<close>.\<close>

definition unreserved :: "char \<Rightarrow> bool" where
  "unreserved c \<longleftrightarrow> (let n = of_char c :: nat in
     48 \<le> n \<and> n \<le> 57 \<or> 65 \<le> n \<and> n \<le> 90 \<or> 97 \<le> n \<and> n \<le> 122 \<or> c \<in> {CHR ''-'', CHR ''_'', CHR ''.'', CHR ''~''})"

definition upper_hex :: "nat \<Rightarrow> char" where
  "upper_hex d = (if d < 10 then char_of (48 + d) else char_of (55 + d))"

definition QueryEscape :: "string \<Rightarrow> string" where
  "QueryEscape s = concat (map (\<lambda>c. if unreserved c then [c] else if c = CHR '' '' then ''+''
     else [CHR ''%'', upper_hex (of_char c div 16), upper_hex (of_char c mod 16)]) s)"

definition gateStatic :: "'w handler" where
  "gateStatic en r w =
     (case permitted en r w of
        (False, w) \<Rightarrow>
          (redirect (if rq_path r \<noteq> [] \<and> rq_path r \<noteq> ''/''
             then ''/login?next='' @ QueryEscape (rq_path r) else ''/login''), w)
      | (True, w) \<Rightarrow> (case we_static en (rq_path r) of (code, page) \<Rightarrow> (respond code (Page page), w)))"

definition safeNext :: "string \<Rightarrow> string" where
  "safeNext s = (if has_prefix s ''/'' \<and> \<not> has_prefix s ''//'' then s else ''/'')"

definition serveLogin :: "'w handler" where
  "serveLogin en r w =
     (case authed en r w of
        (True, w) \<Rightarrow> (redirect (safeNext (rq_next r)), w)
      | (False, w) \<Rightarrow>
          (case we_loginPage en of
             None \<Rightarrow> (fail 500 (Msg ''open web/login.html''), w)
           | Some page \<Rightarrow> (respond 200 (Page page), w)))"

definition authStatus :: "'w handler" where
  "authStatus en r w =
     (case authRequired en w of (req, w) \<Rightarrow>
     (case authed en r w of (ok, w) \<Rightarrow>
        (writeJSON 200 (JObj [(''authenticated'', JBool ok), (''required'', JBool req)]), w)))"

section \<open>Login\<close>

record creds =
  cr_Username :: string
  cr_Password :: string

definition creds_of_json :: "json \<Rightarrow> creds option" where
  "creds_of_json j = dec_struct [(''username'', set_str cr_Username_update), (''password'', set_str cr_Password_update)]
     j \<lparr>cr_Username = [], cr_Password = []\<rparr>"

definition decode :: "(json \<Rightarrow> 'a option) \<Rightarrow> request \<Rightarrow> 'a option" where
  "decode dec r = (case rq_body r of None \<Rightarrow> None | Some j \<Rightarrow> dec j)"

definition bad_json :: gerror where "bad_json = Msg ''invalid request body''"

definition clientIP :: "request \<Rightarrow> string" where
  "clientIP r = (case SplitHostPort (rq_remote r) of None \<Rightarrow> rq_remote r | Some (host, _) \<Rightarrow> host)"

text \<open>The router configuration the entered credentials are checked with.\<close>

definition login_cfg :: "RouterSettings \<Rightarrow> creds \<Rightarrow> rconfig" where
  "login_cfg rt c = \<lparr>rc_Address = rs_Address rt, rc_APIPort = rs_APIPort rt, rc_APITLS = rs_APITLS rt,
     rc_User = cr_Username c, rc_Password = cr_Password c, rc_Iface = [], rc_Interval = 0, rc_Mode = []\<rparr>"

text \<open>\<open>login\<close> up to the check on the router: a response, or the configuration to check.\<close>

definition login_start :: "'w wenv \<Rightarrow> request \<Rightarrow> 'w web \<Rightarrow> (response + rconfig) \<times> 'w web" where
  "login_start en r w =
     (case decode creds_of_json r of
        None \<Rightarrow> (Inl (fail 400 bad_json), w)
      | Some c \<Rightarrow>
     (case authRequired en w of
        (False, w) \<Rightarrow> (Inl (writeJSON 200 ok_json), w)
      | (True, w) \<Rightarrow>
     (case allowed (clientIP r) (we_now en) (wb_limit w) of
        Some d \<Rightarrow>
          (let secs = d div secondNs + 1 in
           (Inl ((fail 429 (Msg (''too many attempts, retry in '' @ Itoa secs @ ''s'')))\<lparr>rp_retryAfter := Itoa secs\<rparr>), w))
      | None \<Rightarrow>
     (case Read (we_lib en) (wb_file w) of
        Inl e \<Rightarrow> (Inl (fail 500 e), w)
      | Inr st \<Rightarrow> (Inr (login_cfg (ActiveRouter st) c), w)))))"

text \<open>And from the router's verdict on.\<close>

definition login_finish :: "'w wenv \<Rightarrow> request \<Rightarrow> (gerror + unit) \<Rightarrow> 'w web \<Rightarrow> response \<times> 'w web" where
  "login_finish en r verdict w =
     (case verdict of
        Inl e \<Rightarrow> (fail 401 (Msg ''router rejected credentials''),
          w\<lparr>wb_limit := lim_fail (clientIP r) (we_later en) (wb_limit w)\<rparr>)
      | Inr _ \<Rightarrow>
          (let w = w\<lparr>wb_limit := lim_reset (clientIP r) (wb_limit w)\<rparr> in
           case create (we_rnd en) (we_later en) (wb_auth w) of
             None \<Rightarrow> (fail 500 (Msg ''rand''), w)
           | Some (tok, m) \<Rightarrow>
               ((writeJSON 200 ok_json)\<lparr>rp_cookie := Some (tok, sessionTTL div secondNs)\<rparr>, w\<lparr>wb_auth := m\<rparr>)))"

definition verify :: "'w wenv \<Rightarrow> rconfig \<Rightarrow> 'w web \<Rightarrow> (gerror + unit) \<times> 'w web" where
  "verify en c w =
     (case cl_Verify (we_tr en) c (world (wb_rst w)) of
        (v, x) \<Rightarrow> (v, w\<lparr>wb_rst := (wb_rst w)\<lparr>world := x\<rparr>\<rparr>))"

definition login_handler :: "'w handler" where
  "login_handler en r w =
     (case login_start en r w of
        (Inl resp, w) \<Rightarrow> (resp, w)
      | (Inr c, w) \<Rightarrow> (case verify en c w of (v, w) \<Rightarrow> login_finish en r v w))"

definition logout :: "'w handler" where
  "logout en r w =
     ((writeJSON 200 ok_json)\<lparr>rp_cookie := Some ([], -1)\<rparr>,
      (case rq_cookie r of None \<Rightarrow> w | Some tok \<Rightarrow> w\<lparr>wb_auth := tok_drop tok (wb_auth w)\<rparr>))"

section \<open>Configuration and status\<close>

definition getConfig :: "'w handler" where
  "getConfig en r w =
     (case Read (we_lib en) (wb_file w) of
        Inl e \<Rightarrow> (fail 500 e, w)
      | Inr st \<Rightarrow> (writeJSON 200 (settings_json st), w))"

definition putConfig :: "'w handler" where
  "putConfig en r w =
     (case decode settings_of_json r of
        None \<Rightarrow> (fail 400 bad_json, w)
      | Some st \<Rightarrow>
          (case Write (we_lib en) (we_wfile en) (wb_file w) st (rq_section r) of
             (Some e, f) \<Rightarrow> (fail 400 e, w\<lparr>wb_file := f\<rparr>)
           | (None, f) \<Rightarrow>
               (writeJSON 200 (status_json ''saved''), w\<lparr>wb_file := f, wb_saved := wb_saved w + 1\<rparr>)))"

text \<open>\<open>AddrPort.String\<close>.\<close>

definition addrport_string :: "addrport \<Rightarrow> string" where
  "addrport_string a =
     (case ap_addr a of
        IPNone \<Rightarrow> ''invalid AddrPort''
      | IP4 _ _ _ _ \<Rightarrow> addr_string (ap_addr a) @ '':'' @ nat_digits (ap_port a)
      | IP6 _ _ \<Rightarrow> ''['' @ addr_string (ap_addr a) @ '']:'' @ nat_digits (ap_port a))"

definition getStatus :: "'w handler" where
  "getStatus en r w =
     (let mode = (case Read (we_lib en) (wb_file w) of Inl _ \<Rightarrow> [] | Inr st \<Rightarrow> st_Mode st);
          up = (case we_snap en of None \<Rightarrow> None | Some sn \<Rightarrow> sn_Upstream sn)
      in (writeJSON 200 (JObj
            ([(''mode'', JStr mode), (''poll_ok'', JBool (we_snap en \<noteq> None)),
              (''server_key'', JBool (case we_snap en of None \<Rightarrow> False | Some sn \<Rightarrow> sn_ServerPub sn \<noteq> zero_key)),
              (''clients'', JNum (case we_snap en of None \<Rightarrow> 0 | Some sn \<Rightarrow> int (length (sn_ClientPubs sn))))] @
             omit_int ''wg_listen_port'' (case we_snap en of None \<Rightarrow> 0 | Some sn \<Rightarrow> sn_WGListenPort sn) @
             [(''upstream_ready'', JBool (up \<noteq> None))] @
             omit_str ''upstream_addr'' (case up of None \<Rightarrow> [] | Some u \<Rightarrow> addrport_string (up_RemoteAddr u)) @
             omit_str ''upstream_comment'' (case up of None \<Rightarrow> [] | Some u \<Rightarrow> up_Comment u))), w))"

definition getVersion :: "'w handler" where
  "getVersion en r w =
     (writeJSON 200 (JObj [(''build'', JStr (snd (we_version en))), (''version'', JStr (fst (we_version en)))]), w)"

section \<open>Managing the router\<close>

definition routerClient :: "'w wenv \<Rightarrow> 'w web \<Rightarrow> gerror + rconfig" where
  "routerClient en w =
     (case Read (we_lib en) (wb_file w) of
        Inl e \<Rightarrow> Inl e
      | Inr st \<Rightarrow>
          (let c = ToConfig st; rt = c_Router c in
           Inr \<lparr>rc_Address = rn_Address rt, rc_APIPort = rn_APIPort rt, rc_APITLS = rn_APITLS rt,
             rc_User = rn_User rt, rc_Password = rn_Password rt, rc_Iface = rn_WGIface rt,
             rc_Interval = c_PollInterval c, rc_Mode = []\<rparr>))"

text \<open>A handler that asks the router through the client of the configuration: 500 without one,
  502 when the router fails.\<close>

definition via_router ::
  "(rconfig \<Rightarrow> 'w rstate ros \<Rightarrow> 'w rstate \<Rightarrow> (gerror + 'a) \<times> 'w rstate) \<Rightarrow> ('a \<Rightarrow> json) \<Rightarrow>
   'w wenv \<Rightarrow> 'w web \<Rightarrow> response \<times> 'w web" where
  "via_router cmd out en w =
     (case routerClient en w of
        Inl e \<Rightarrow> (fail 500 e, w)
      | Inr c \<Rightarrow>
          (case cmd c (binapi_ros (we_tr en) c) (wb_rst w) of
             (Inl e, s) \<Rightarrow> (fail 502 e, w\<lparr>wb_rst := s\<rparr>)
           | (Inr x, s) \<Rightarrow> (writeJSON 200 (out x), w\<lparr>wb_rst := s\<rparr>)))"

text \<open>A command without a result.\<close>

definition done_or :: "gerror option \<times> 's \<Rightarrow> (gerror + unit) \<times> 's" where
  "done_or r = (case r of (Some e, s) \<Rightarrow> (Inl e, s) | (None, s) \<Rightarrow> (Inr (), s))"

definition peer_json :: "Peer \<Rightarrow> json" where
  "peer_json p = JObj
     (omit_str ''id'' (p_ID p) @ omit_str ''interface'' (p_Interface p) @
      [(''disabled'', JBool (p_Disabled p)), (''name'', JStr (p_Name p)), (''comment'', JStr (p_Comment p)),
       (''public_key'', JStr (p_PublicKey p)), (''private_key'', JStr (p_PrivateKey p)),
       (''preshared_key'', JStr (p_PresharedKey p)), (''allowed_address'', JStr (p_AllowedAddress p)),
       (''endpoint_address'', JStr (p_EndpointAddress p)), (''endpoint_port'', JStr (p_EndpointPort p)),
       (''persistent_keepalive'', JStr (p_PersistentKeepalive p))] @
      omit_str ''current_endpoint'' (p_CurrentEndpoint p) @ omit_str ''rx'' (p_Rx p) @
      omit_str ''tx'' (p_Tx p) @ omit_str ''last_handshake'' (p_LastHandshake p))"

definition peer_fields :: "(string \<times> (json \<Rightarrow> Peer \<Rightarrow> Peer option)) list" where
  "peer_fields =
     [(''id'', set_str p_ID_update), (''interface'', set_str p_Interface_update),
      (''disabled'', set_bool p_Disabled_update), (''name'', set_str p_Name_update),
      (''comment'', set_str p_Comment_update), (''public_key'', set_str p_PublicKey_update),
      (''private_key'', set_str p_PrivateKey_update), (''preshared_key'', set_str p_PresharedKey_update),
      (''allowed_address'', set_str p_AllowedAddress_update),
      (''endpoint_address'', set_str p_EndpointAddress_update), (''endpoint_port'', set_str p_EndpointPort_update),
      (''persistent_keepalive'', set_str p_PersistentKeepalive_update),
      (''current_endpoint'', set_str p_CurrentEndpoint_update), (''rx'', set_str p_Rx_update),
      (''tx'', set_str p_Tx_update), (''last_handshake'', set_str p_LastHandshake_update)]"

definition peer_of_json :: "json \<Rightarrow> Peer option" where
  "peer_of_json j = dec_struct peer_fields j zeroPeer"

text \<open>What the page receives in a list of peers it can send back.\<close>

interpretation peer: struct_codec peer_fields peer_json zeroPeer "\<lambda>_. True"
proof
  fix x :: Peer
  show "dec_struct peer_fields (peer_json x) zeroPeer = Some x"
    by (cases x) (simp add: dec_struct_JObj peer_json_def peer_fields_def dec zeroPeer_def
      del: dec_fields.simps(2))
qed

definition listPeers :: "'w handler" where
  "listPeers en r w = via_router (\<lambda>c ros. ListPeers ros c) (\<lambda>ps. JArr (map peer_json ps)) en w"

definition addPeer :: "'w handler" where
  "addPeer en r w =
     (case decode peer_of_json r of
        None \<Rightarrow> (fail 400 bad_json, w)
      | Some p \<Rightarrow> via_router (\<lambda>c ros s. done_or (AddPeer ros c p s)) (\<lambda>_. status_json ''added'') en w)"

definition updatePeer :: "string \<Rightarrow> 'w handler" where
  "updatePeer pid en r w =
     (case decode peer_of_json r of
        None \<Rightarrow> (fail 400 bad_json, w)
      | Some p \<Rightarrow> via_router (\<lambda>c ros s. done_or (UpdatePeer ros c pid p s)) (\<lambda>_. status_json ''updated'') en w)"

definition deletePeer :: "string \<Rightarrow> 'w handler" where
  "deletePeer pid en r w =
     via_router (\<lambda>c ros s. done_or (DeletePeer ros pid s)) (\<lambda>_. status_json ''deleted'') en w"

definition listRouterAddresses :: "'w handler" where
  "listRouterAddresses en r w = via_router (\<lambda>c ros. ListAddresses ros)
     (\<lambda>as. JArr (map (\<lambda>a. JObj [(''interface'', JStr (ad_Interface a)), (''address'', JStr (ad_Address a))]) as)) en w"

definition listRouterInterfaces :: "'w handler" where
  "listRouterInterfaces en r w = via_router (\<lambda>c ros. ListInterfaces ros)
     (\<lambda>ifs. JArr (map (\<lambda>i. JObj ([(''name'', JStr (if_Name i)), (''public_key'', JStr (if_PublicKey i))] @
        omit_str ''listen_port'' (if_ListenPort i) @ omit_str ''address'' (if_Address i))) ifs)) en w"

record ifaceReq =
  iq_PrivateKey :: string
  iq_Address :: string

definition setRouterInterface :: "'w handler" where
  "setRouterInterface en r w =
     (case decode (\<lambda>j. dec_struct [(''private_key'', set_str iq_PrivateKey_update), (''address'', set_str iq_Address_update)]
        j \<lparr>iq_PrivateKey = [], iq_Address = []\<rparr>) r of
        None \<Rightarrow> (fail 400 bad_json, w)
      | Some q \<Rightarrow> via_router (\<lambda>c ros s. done_or (SetInterface ros c (iq_PrivateKey q) (iq_Address q) s))
          (\<lambda>_. status_json ''applied'') en w)"

definition keypair :: "'w handler" where
  "keypair en r w =
     (case GenerateKeypair (we_cr en) (we_rnd en) of
        Inl e \<Rightarrow> (fail 500 e, w)
      | Inr (priv, pub) \<Rightarrow> (writeJSON 200 (JObj [(''private'', JStr priv), (''public'', JStr pub)]), w))"

definition netAuto :: "'w handler" where
  "netAuto en r w = (writeJSON 200 (JObj
     [(''container_addr'', JStr (detectContainerAddr (we_nics en))), (''gateway'', JStr (detectGateway (we_route en))),
      (''container_addr6'', JStr (detectContainerAddr6 (we_nics en)))]), w)"

definition peerConfigReq_of_json :: "json \<Rightarrow> peerConfigReq option" where
  "peerConfigReq_of_json j = dec_struct
     [(''private_key'', set_str pq_PrivateKey_update), (''address'', set_str pq_Address_update),
      (''preshared_key'', set_str pq_PresharedKey_update), (''name'', set_str pq_Name_update)]
     j \<lparr>pq_PrivateKey = [], pq_Address = [], pq_PresharedKey = [], pq_Name = []\<rparr>"

definition peerConfig :: "'w handler" where
  "peerConfig en r w =
     (case decode peerConfigReq_of_json r of
        None \<Rightarrow> (fail 400 bad_json, w)
      | Some req \<Rightarrow>
     (if pq_PrivateKey req = [] \<or> pq_Address req = [] then (fail 400 (Msg ''private_key and address are required''), w)
      else case Read (we_lib en) (wb_file w) of
        Inl e \<Rightarrow> (fail 500 e, w)
      | Inr st \<Rightarrow>
     (if sv_PublicEndpoint (st_Server st) = [] then (fail 400 (Msg ''set server.public_endpoint in settings first''), w)
      else case routerClient en w of
        Inl e \<Rightarrow> (fail 500 e, w)
      | Inr c \<Rightarrow>
     (case ServerKey (binapi_ros (we_tr en) c) c (wb_rst w) of
        (Inl e, s) \<Rightarrow> (fail 502 e, w\<lparr>wb_rst := s\<rparr>)
      | (Inr serverKey, s) \<Rightarrow>
          (let conf = renderClientConfig st serverKey req; w = w\<lparr>wb_rst := s\<rparr> in
           case we_qr en conf of
             None \<Rightarrow> (fail 500 (Msg ''qrcode''), w)
           | Some png \<Rightarrow>
               (writeJSON 200 (JObj [(''config'', JStr conf), (''qr'', JStr (''data:image/png;base64,'' @ png))]), w))))))"

section \<open>Routes\<close>

datatype endpoint =
    AuthStatus | Login | Logout | Version | LoginPage | Static
  | GetConfig | PutConfig | Status | ListPeersEP | AddPeerEP | UpdatePeerEP string | DeletePeerEP string
  | Keypair | PeerConfig | Interfaces | Addresses | NetAuto | SetInterfaceEP

text \<open>\<open>ServeMux\<close>: the pattern of method and path, \<open>GET\<close> standing for \<open>HEAD\<close> too; everything else
  falls to \<open>/\<close>, which is the static files.\<close>

definition patterns :: "((string \<times> string list) \<times> endpoint) list" where
  "patterns =
     [((''GET'', [''api'', ''auth'']), AuthStatus), ((''POST'', [''api'', ''login'']), Login),
      ((''POST'', [''api'', ''logout'']), Logout), ((''GET'', [''api'', ''version'']), Version),
      ((''GET'', [''api'', ''config'']), GetConfig), ((''PUT'', [''api'', ''config'']), PutConfig),
      ((''GET'', [''api'', ''status'']), Status), ((''GET'', [''api'', ''peers'']), ListPeersEP),
      ((''POST'', [''api'', ''peers'']), AddPeerEP), ((''POST'', [''api'', ''keypair'']), Keypair),
      ((''POST'', [''api'', ''peer-config'']), PeerConfig),
      ((''GET'', [''api'', ''router'', ''interfaces'']), Interfaces),
      ((''GET'', [''api'', ''router'', ''addresses'']), Addresses), ((''GET'', [''api'', ''net'', ''auto'']), NetAuto),
      ((''POST'', [''api'', ''router'', ''interface'']), SetInterfaceEP), ((''GET'', [''login'']), LoginPage)]"

definition endpoint_of :: "request \<Rightarrow> endpoint" where
  "endpoint_of r =
     (let m = (if rq_method r = ''HEAD'' then ''GET'' else rq_method r) in
      case map_of patterns (m, rq_segs r) of
        Some ep \<Rightarrow> ep
      | None \<Rightarrow>
          if length (rq_segs r) = 3 \<and> take 2 (rq_segs r) = [''api'', ''peers''] \<and> rq_segs r ! 2 \<noteq> [] then
            (if m = ''PATCH'' then UpdatePeerEP (rq_segs r ! 2)
             else if m = ''DELETE'' then DeletePeerEP (rq_segs r ! 2) else Static)
          else Static)"

fun handler_of :: "endpoint \<Rightarrow> 'w handler" where
  "handler_of AuthStatus = authStatus"
| "handler_of Login = login_handler"
| "handler_of Logout = logout"
| "handler_of Version = getVersion"
| "handler_of LoginPage = serveLogin"
| "handler_of Static = gateStatic"
| "handler_of GetConfig = protect getConfig"
| "handler_of PutConfig = protect putConfig"
| "handler_of Status = protect getStatus"
| "handler_of ListPeersEP = protect listPeers"
| "handler_of AddPeerEP = protect addPeer"
| "handler_of (UpdatePeerEP pid) = protect (updatePeer pid)"
| "handler_of (DeletePeerEP pid) = protect (deletePeer pid)"
| "handler_of Keypair = protect keypair"
| "handler_of PeerConfig = protect peerConfig"
| "handler_of Interfaces = protect listRouterInterfaces"
| "handler_of Addresses = protect listRouterAddresses"
| "handler_of NetAuto = protect netAuto"
| "handler_of SetInterfaceEP = protect setRouterInterface"

text \<open>\<open>Handler\<close>: one request.\<close>

definition handle :: "'w handler" where
  "handle en r w = handler_of (endpoint_of r) en r w"

fun handle_run :: "('w wenv \<times> request) list \<Rightarrow> 'w web \<Rightarrow> 'w web" where
  "handle_run [] w = w"
| "handle_run ((en, r) # es) w = handle_run es (snd (handle en r w))"

section \<open>Lemmas\<close>

text \<open>What a handler may touch: \<open>same_auth\<close> leaves sessions and limiter, \<open>same_data\<close> the
  configuration, the router and the reload signal.\<close>

definition same_auth :: "'w web \<Rightarrow> 'w web \<Rightarrow> bool" where
  "same_auth w w' \<longleftrightarrow> wb_auth w' = wb_auth w \<and> wb_limit w' = wb_limit w"

definition same_data :: "'w web \<Rightarrow> 'w web \<Rightarrow> bool" where
  "same_data w w' \<longleftrightarrow> wb_file w' = wb_file w \<and> wb_rst w' = wb_rst w \<and> wb_saved w' = wb_saved w"

lemma routerReachable_frame:
  "routerReachable en st w = (b, w') \<Longrightarrow> same_auth w w' \<and> same_data w w'"
  by (auto simp: routerReachable_def Let_def same_auth_def same_data_def split: if_splits)

lemma authRequired_frame: "authRequired en w = (b, w') \<Longrightarrow> same_auth w w' \<and> same_data w w'"
  by (auto simp: authRequired_def dest: routerReachable_frame split: if_splits sum.splits)
     (simp_all add: same_auth_def same_data_def)

lemma authed_frame:
  assumes "authed en r w = (b, w')"
  shows "same_data w w'" "wb_limit w' = wb_limit w" "wb_auth w' \<subseteq>\<^sub>m wb_auth w"
    "b \<Longrightarrow> \<exists>tok e. rq_cookie r = Some tok \<and> wb_auth w tok = Some e \<and> we_now en \<le> e"
proof -
  show "same_data w w'" "wb_limit w' = wb_limit w"
    using assms by (auto simp: authed_def same_data_def split: option.splits prod.splits)
  show "wb_auth w' \<subseteq>\<^sub>m wb_auth w"
    using assms by (auto simp: authed_def dest: tok_valid_cases(1) split: option.splits prod.splits)
  show "\<exists>tok e. rq_cookie r = Some tok \<and> wb_auth w tok = Some e \<and> we_now en \<le> e" if b
    using assms that by (auto simp: authed_def dest: tok_valid_cases(2) split: option.splits prod.splits)
qed

text \<open>Who gets past the gate: anyone without a need for authentication, else the bearer of a
  live session.\<close>

lemma permitted_cases:
  assumes "permitted en r w = (ok, w')"
  obtains (free) "\<not> fst (authRequired en w)" "ok" "same_data w w'" "wb_limit w' = wb_limit w"
      "wb_auth w' \<subseteq>\<^sub>m wb_auth w"
  | (session) tok e where "ok" "rq_cookie r = Some tok" "wb_auth w tok = Some e" "we_now en \<le> e"
      "same_data w w'" "wb_limit w' = wb_limit w" "wb_auth w' \<subseteq>\<^sub>m wb_auth w"
  | (refused) "\<not> ok" "fst (authRequired en w)" "same_data w w'" "wb_limit w' = wb_limit w"
      "wb_auth w' \<subseteq>\<^sub>m wb_auth w"
proof -
  obtain b w1 where a: "authRequired en w = (b, w1)" by force
  note fr = authRequired_frame [OF a]
  show thesis
  proof (cases b)
    case False
    with assms a fr show ?thesis by (intro free) (auto simp: permitted_def same_auth_def)
  next
    case True
    then have au: "authed en r w1 = (ok, w')" using assms a by (simp add: permitted_def)
    note au' = authed_frame [OF au]
    have f: "same_data w w'" "wb_limit w' = wb_limit w" "wb_auth w' \<subseteq>\<^sub>m wb_auth w"
      using au'(1-3) fr by (simp_all add: same_data_def same_auth_def)
    show ?thesis
    proof (cases ok)
      case True
      with au'(4) fr f session show ?thesis by (auto simp: same_auth_def)
    next
      case False
      with f a \<open>b\<close> refused show ?thesis by simp
    qed
  qed
qed

fun is_open :: "endpoint \<Rightarrow> bool" where
  "is_open AuthStatus = True"
| "is_open Login = True"
| "is_open Logout = True"
| "is_open Version = True"
| "is_open LoginPage = True"
| "is_open _ = False"

lemma same_auth_refl [simp]: "same_auth w w" "same_auth w (w\<lparr>wb_rst := x\<rparr>)"
    "same_auth w (w\<lparr>wb_file := f\<rparr>)" "same_auth w (w\<lparr>wb_file := f, wb_saved := n\<rparr>)"
  by (simp_all add: same_auth_def)

lemma via_router_same_auth [simp]: "same_auth w (snd (via_router cmd out en w))"
  by (simp add: via_router_def split: sum.split prod.split)

lemma data_handlers_same_auth [simp]:
  "same_auth w (snd (getConfig en r w))" "same_auth w (snd (putConfig en r w))"
  "same_auth w (snd (getStatus en r w))" "same_auth w (snd (getVersion en r w))"
  "same_auth w (snd (listPeers en r w))"
  "same_auth w (snd (addPeer en r w))" "same_auth w (snd (updatePeer pid en r w))"
  "same_auth w (snd (deletePeer pid en r w))" "same_auth w (snd (keypair en r w))"
  "same_auth w (snd (peerConfig en r w))" "same_auth w (snd (listRouterInterfaces en r w))"
  "same_auth w (snd (listRouterAddresses en r w))" "same_auth w (snd (netAuto en r w))"
  "same_auth w (snd (setRouterInterface en r w))"
  by (simp_all add: getConfig_def putConfig_def getStatus_def getVersion_def listPeers_def addPeer_def
      updatePeer_def deletePeer_def keypair_def peerConfig_def listRouterInterfaces_def
      listRouterAddresses_def netAuto_def setRouterInterface_def Let_def
      split: option.split sum.split prod.split)

lemma protected_handler:
  assumes "\<not> is_open ep" "ep \<noteq> Static"
  obtains h :: "'w handler" where "handler_of ep = protect h" "\<And>en r w. same_auth w (snd (h en r w))"
  using assms by (cases ep) (auto intro: data_handlers_same_auth)

section \<open>Properties\<close>

text \<open>
  C11. Nothing behind the gate runs without a session: when authentication is required and the
  request carries no live token, every route but the five open ones, and every path that is no
  route, is answered with 401 or a redirect to the login page, and neither the configuration
  nor the router nor the login limiter changes; no session comes into being.
\<close>

theorem protected_needs_session:
  assumes "\<not> is_open (endpoint_of r)" "fst (authRequired en w)"
    and "\<forall>tok e. rq_cookie r = Some tok \<longrightarrow> wb_auth w tok = Some e \<longrightarrow> e < we_now en"
  shows "let (resp, w') = handle en r w in
    (rp_code resp = 401 \<and> rp_content resp = Failure (Msg ''authentication required'') \<or>
     rp_code resp = 302 \<and> rp_content resp = Page [] \<and> has_prefix (rp_location resp) ''/login'') \<and>
    rp_cookie resp = None \<and> same_data w w' \<and> wb_limit w' = wb_limit w \<and> wb_auth w' \<subseteq>\<^sub>m wb_auth w"
proof -
  obtain ok w1 where p: "permitted en r w = (ok, w1)" by force
  then have no: "\<not> ok" "same_data w w1" "wb_limit w1 = wb_limit w" "wb_auth w1 \<subseteq>\<^sub>m wb_auth w"
    by (cases rule: permitted_cases; use assms(2,3) in \<open>simp add: leD | force\<close>)+
  show ?thesis
  proof (cases "endpoint_of r = Static")
    case True
    then show ?thesis using p no
      by (simp add: handle_def gateStatic_def redirect_def respond_def has_prefix_def)
  next
    case False
    obtain h :: "'a handler" where "handler_of (endpoint_of r) = protect h"
      by (rule protected_handler [OF assms(1) False])
    with p no show ?thesis by (simp add: handle_def protect_def fail_def respond_def)
  qed
qed

text \<open>A login that was granted a token: the credentials in the request were accepted by the
  router of the saved configuration.\<close>

definition granted :: "'w wenv \<Rightarrow> request \<Rightarrow> 'w web \<Rightarrow> string \<Rightarrow> bool" where
  "granted en r w tok \<longleftrightarrow>
     (\<exists>c st w1 x. endpoint_of r = Login \<and> decode creds_of_json r = Some c \<and>
        Read (we_lib en) (wb_file w) = Inr st \<and>
        cl_Verify (we_tr en) (login_cfg (ActiveRouter st) c) w1 = (Inr (), x) \<and>
        rp_cookie (fst (handle en r w)) = Some (tok, 12 * 3600))"

lemma login_start_cases:
  assumes "login_start en r w = (x, w1)"
  shows "same_auth w w1 \<and> same_data w w1 \<and> (\<forall>c. x = Inr c \<longrightarrow>
    (\<exists>cr st. decode creds_of_json r = Some cr \<and> Read (we_lib en) (wb_file w) = Inr st \<and>
       c = login_cfg (ActiveRouter st) cr))"
proof (cases "decode creds_of_json r")
  case None
  with assms show ?thesis by (auto simp: login_start_def same_data_def)
next
  case (Some cr)
  obtain b w2 where a: "authRequired en w = (b, w2)" by force
  note fr = authRequired_frame [OF a]
  have "wb_file w2 = wb_file w" using fr by (simp add: same_data_def)
  then show ?thesis
    using assms Some a fr
    by (cases b) (auto simp: login_start_def Let_def split: option.splits sum.splits)
qed

lemma login_auth:
  assumes "endpoint_of r = Login" "handle en r w = (resp, w')"
  shows "wb_auth w' = wb_auth w \<or>
    (\<exists>tok. wb_auth w' = (wb_auth w)(tok \<mapsto> we_later en + sessionTTL) \<and> granted en r w tok)"
proof -
  obtain x w1 where s: "login_start en r w = (x, w1)" by force
  note fr = login_start_cases [OF s]
  show ?thesis
  proof (cases x)
    case (Inl e)
    with s fr assms show ?thesis by (simp add: handle_def login_handler_def same_auth_def)
  next
    case (Inr c)
    with fr obtain cr st where c: "decode creds_of_json r = Some cr" "Read (we_lib en) (wb_file w) = Inr st"
      "c = login_cfg (ActiveRouter st) cr" by blast
    obtain v y where v: "cl_Verify (we_tr en) c (world (wb_rst w1)) = (v, y)" by force
    let ?w2 = "w1\<lparr>wb_rst := (wb_rst w1)\<lparr>world := y\<rparr>\<rparr>"
    have h: "handle en r w = login_finish en r v ?w2"
      using assms(1) s Inr v by (simp add: handle_def login_handler_def verify_def)
    show ?thesis
    proof (cases v)
      case (Inl e)
      with h assms(2) fr show ?thesis by (auto simp: login_finish_def same_auth_def)
    next
      case (Inr u)
      show ?thesis
      proof (cases "create (we_rnd en) (we_later en) (wb_auth w1)")
        case None
        with h assms(2) fr Inr show ?thesis by (auto simp: login_finish_def same_auth_def Let_def)
      next
        case (Some tm)
        obtain tok m where tm: "create (we_rnd en) (we_later en) (wb_auth w1) = Some (tok, m)"
          using Some by (cases tm) auto
        then have "wb_auth w' = (wb_auth w)(tok \<mapsto> we_later en + sessionTTL)"
          using h assms(2) fr Inr create_cases(1) [OF tm] by (auto simp: login_finish_def same_auth_def Let_def)
        moreover have "rp_cookie (fst (handle en r w)) = Some (tok, 12 * 3600)"
          using h Inr tm by (simp add: login_finish_def Let_def sessionTTL_def secondNs_def)
        ultimately show ?thesis using c v Inr assms(1) unfolding granted_def by auto
      qed
    qed
  qed
qed

text \<open>The sessions after one request: some may end, and only a granted login adds one.\<close>

lemma handle_auth:
  assumes "handle en r w = (resp, w')"
  shows "wb_auth w' \<subseteq>\<^sub>m wb_auth w \<or>
    (\<exists>tok. wb_auth w' = (wb_auth w)(tok \<mapsto> we_later en + sessionTTL) \<and> granted en r w tok)"
proof (cases "is_open (endpoint_of r)")
  case False
  obtain ok w1 where p: "permitted en r w = (ok, w1)" by force
  have le: "wb_auth w1 \<subseteq>\<^sub>m wb_auth w" using p by (cases rule: permitted_cases) simp_all
  show ?thesis
  proof (cases "endpoint_of r = Static")
    case True
    with assms p le show ?thesis by (auto simp: handle_def gateStatic_def split: if_splits bool.splits prod.splits)
  next
    case ns: False
    obtain h :: "'a handler" where h: "handler_of (endpoint_of r) = protect h"
      "\<And>en r w. same_auth w (snd (h en r w))" by (rule protected_handler [OF False ns]) blast
    have "w' = (if ok then snd (h en r w1) else w1)"
      using assms p h(1) by (cases ok) (simp_all add: handle_def protect_def split: prod.splits)
    with h(2) [of w1 en r] le show ?thesis by (auto simp: same_auth_def)
  qed
next
  case True
  then consider "endpoint_of r = Login" | "endpoint_of r = AuthStatus" | "endpoint_of r = Logout"
    | "endpoint_of r = Version" | "endpoint_of r = LoginPage" by (cases "endpoint_of r") simp_all
  then show ?thesis
  proof cases
    case 1
    from login_auth [OF 1 assms] show ?thesis by auto
  next
    case 2
    obtain b w1 where a: "authRequired en w = (b, w1)" by force
    obtain ok w2 where au: "authed en r w1 = (ok, w2)" by force
    from 2 a au assms have "w' = w2" by (simp add: handle_def authStatus_def)
    with authRequired_frame [OF a] authed_frame(3) [OF au] show ?thesis by (simp add: same_auth_def)
  next
    case 3
    with assms have "wb_auth w' \<subseteq>\<^sub>m wb_auth w"
      by (auto simp: handle_def logout_def tok_drop_def map_le_def split: option.splits if_splits)
    then show ?thesis by simp
  next
    case 4
    with assms show ?thesis by (auto simp: handle_def getVersion_def)
  next
    case 5
    obtain ok w1 where au: "authed en r w = (ok, w1)" by force
    from 5 au assms have "w' = w1"
      by (auto simp: handle_def serveLogin_def split: if_splits bool.splits option.splits)
    with authed_frame(3) [OF au] show ?thesis by simp
  qed
qed

lemma sessions_run:
  "wb_auth (handle_run es w) tok = Some e \<Longrightarrow>
     wb_auth w tok = Some e \<or>
     (\<exists>es1 en r es2. es = es1 @ (en, r) # es2 \<and> granted en r (handle_run es1 w) tok \<and> e = we_later en + sessionTTL)"
proof (induction es arbitrary: w)
  case (Cons x es)
  obtain en r where x: "x = (en, r)" by force
  let ?w = "snd (handle en r w)"
  from Cons.IH [of ?w] Cons.prems x consider
    "wb_auth ?w tok = Some e" | es1 en' r' es2 where "es = es1 @ (en', r') # es2"
      "granted en' r' (handle_run es1 ?w) tok" "e = we_later en' + sessionTTL" by auto
  then show ?case
  proof cases
    case 1
    from handle_auth [of en r w "fst (handle en r w)" ?w] consider
      "wb_auth ?w \<subseteq>\<^sub>m wb_auth w" | t where "wb_auth ?w = (wb_auth w)(t \<mapsto> we_later en + sessionTTL)"
        "granted en r w t" by auto
    then show ?thesis
    proof cases
      case 1
      with \<open>wb_auth ?w tok = Some e\<close> show ?thesis by (metis map_le_def domI)
    next
      case 2
      show ?thesis
      proof (cases "t = tok")
        case True
        with 2 \<open>wb_auth ?w tok = Some e\<close> have "e = we_later en + sessionTTL" "granted en r (handle_run [] w) tok"
          by simp_all
        then show ?thesis unfolding x by blast
      next
        case False
        with 2 \<open>wb_auth ?w tok = Some e\<close> show ?thesis by simp
      qed
    qed
  next
    case 2
    then have "x # es = (x # es1) @ (en', r') # es2" "granted en' r' (handle_run (x # es1) w) tok"
      by (simp_all add: x)
    with 2(3) show ?thesis by blast
  qed
qed simp

text \<open>
  C12. Every session goes back to a login: over any run of requests since the start, a token
  that is accepted was issued by an earlier login request whose credentials the router of the
  saved configuration accepted, at most twelve hours before.
\<close>

theorem session_from_login:
  assumes "fst (tok_valid tok now (wb_auth (handle_run es (newWeb f rst))))"
  shows "\<exists>es1 en r es2. es = es1 @ (en, r) # es2 \<and> granted en r (handle_run es1 (newWeb f rst)) tok \<and>
    now \<le> we_later en + sessionTTL"
proof -
  let ?m = "wb_auth (handle_run es (newWeb f rst))"
  from assms obtain e where e: "?m tok = Some e" "now \<le> e"
    using tok_valid_cases(2) [of tok now ?m] by (metis prod.collapse)
  have "wb_auth (newWeb f rst) tok = None" by (simp add: newWeb_def newSessions_def)
  with sessions_run [OF e(1)] e(2) show ?thesis by auto
qed

section \<open>Concrete requests\<close>

text \<open>A server whose saved router accepts every login.\<close>

definition demo_file :: Settings where
  "demo_file = withDefaults demo_settings"

definition demo_env_web :: "bytes list wenv" where
  "demo_env_web = \<lparr>we_lib = \<lparr>js_parse = \<lambda>_. Some (settings_json demo_file), js_print = \<lambda>_. ''x''\<rparr>,
     we_wfile = (\<lambda>d f. (True, Content d)), we_tr = scripted (\<lambda>_. Send [''!done'']), we_noauth = [],
     we_dial = (\<lambda>_. True), we_now = 0, we_later = 1, we_rnd = Some [171], we_snap = None, we_cr = demo_crypto,
     we_qr = (\<lambda>_. None), we_nics = None, we_route = None, we_loginPage = None,
     we_static = (\<lambda>_. (200, [])), we_version = ([], [])\<rparr>"

definition demo_request :: "string \<Rightarrow> string list \<Rightarrow> request" where
  "demo_request m segs = \<lparr>rq_method = m, rq_segs = segs, rq_path = ''/x'', rq_cookie = None,
     rq_body = Some (JObj [(''username'', JStr ''u''), (''password'', JStr ''p'')]), rq_remote = ''9.0.0.1:1'',
     rq_section = [], rq_next = []\<rparr>"

definition demo_web :: "bytes list web" where
  "demo_web = newWeb (Content ''x'') \<lparr>dialers = Map.empty, world = []\<rparr>"

lemma demo_Read: "Read (we_lib demo_env_web) (wb_file demo_web) = Inr demo_file"
proof -
  have "ints_ok demo_settings"
    by (simp add: ints_ok_defs demo_settings_def zeroSettings_def
      zeroServer_def zeroClient_def zeroObfuscation_def zeroRouter_def)
  then have "settings_of_json (settings_json demo_file) = Some demo_file"
    unfolding demo_file_def by (intro settings_dec ints_ok_withDefaults)
  moreover have "TrimSpace ''x'' \<noteq> []" by (subst TrimSpace_plain) (auto simp: plain_char_def)
  ultimately show ?thesis
    by (simp add: Read_def readRaw_def demo_env_web_def demo_web_def newWeb_def demo_file_def)
qed

lemma demo_authRequired:
  obtains w1 where "authRequired demo_env_web demo_web = (True, w1)" "same_auth demo_web w1" "same_data demo_web w1"
proof -
  have "rs_Address (ActiveRouter demo_file) = ''r''"
    by (simp add: demo_file_def demo_settings_def withDefaults_def ActiveRouter_def Let_def zeroSettings_def
        zeroServer_def defaultRouter_def or_str_def defMode_def ModeServer_def ModeClient_def)
  moreover have "we_noauth demo_env_web = []" "we_dial demo_env_web a" "wb_reachAt demo_web = None" for a
    by (simp_all add: demo_env_web_def demo_web_def newWeb_def)
  ultimately have "fst (authRequired demo_env_web demo_web)"
    by (simp add: authRequired_def demo_Read routerReachable_def Let_def since_def reachCacheTTL_def secondNs_def)
  then obtain w1 where "authRequired demo_env_web demo_web = (True, w1)" by (metis prod.collapse)
  with that authRequired_frame [OF this] show thesis by blast
qed

lemma demo_endpoints:
  "endpoint_of (demo_request ''GET'' [''api'', ''config'']) = GetConfig"
  "endpoint_of (demo_request ''POST'' [''api'', ''login'']) = Login"
  by (simp_all add: endpoint_of_def patterns_def demo_request_def Let_def)

theorem protected_needs_session_witness:
  "rp_code (fst (handle demo_env_web (demo_request ''GET'' [''api'', ''config'']) demo_web)) \<in> {401, 302}"
proof -
  obtain w1 where "authRequired demo_env_web demo_web = (True, w1)" by (rule demo_authRequired)
  then have "fst (authRequired demo_env_web demo_web)" by simp
  from protected_needs_session [OF _ this, of "demo_request ''GET'' [''api'', ''config'']"]
  show ?thesis by (simp add: demo_endpoints) (auto simp: demo_request_def split: prod.splits)
qed

theorem session_from_login_witness:
  "\<exists>tok es1 en r es2. [(demo_env_web, demo_request ''POST'' [''api'', ''login''])] = es1 @ (en, r) # es2 \<and>
     granted en r (handle_run es1 demo_web) tok"
proof -
  let ?r = "demo_request ''POST'' [''api'', ''login'']" and ?tok = "hex_encode [171]"
  obtain w1 where a: "authRequired demo_env_web demo_web = (True, w1)" "same_auth demo_web w1"
    "same_data demo_web w1" by (rule demo_authRequired)
  have c: "decode creds_of_json ?r = Some \<lparr>cr_Username = ''u'', cr_Password = ''p''\<rparr>"
    by (simp add: decode_def demo_request_def creds_of_json_def dec_struct_def field_of_def set_str_def)
  have lim: "wb_limit demo_web = Map.empty" by (simp add: demo_web_def newWeb_def newLimiter_def)
  obtain cfg where l: "login_start demo_env_web ?r demo_web = (Inr cfg, w1)"
    using a demo_Read lim by (simp add: login_start_def c same_auth_def same_data_def allowed_def)
  have "cl_Verify (scripted (\<lambda>_. Send [''!done''])) cfg x = (Inr (), x @ [Send (login_words (rc_User cfg) (rc_Password cfg))])" for x
    using login_loop_done [of "[]"]
    by (simp add: cl_Verify_def Verify_def ok_result_def Dial_def login_def scripted_def)
  then obtain y where v: "cl_Verify (we_tr demo_env_web) cfg (world (wb_rst w1)) = (Inr (), y)"
    by (simp add: demo_env_web_def)
  have env: "we_rnd demo_env_web = Some [171]" "we_later demo_env_web = 1" by (simp_all add: demo_env_web_def)
  have "wb_auth (snd (handle demo_env_web ?r demo_web)) ?tok = Some (1 + sessionTTL)"
    using demo_endpoints(2) l v
    by (simp add: handle_def login_handler_def verify_def login_finish_def create_def env Let_def)
  moreover have "?tok \<noteq> []" by (simp add: hex_encode_def)
  ultimately have "fst (tok_valid ?tok 5 (wb_auth (handle_run [(demo_env_web, ?r)] demo_web)))"
    by (simp add: tok_valid_def sessionTTL_def secondNs_def)
  from session_from_login [OF this [unfolded demo_web_def]] show ?thesis unfolding demo_web_def by blast
qed

section \<open>Limits of the protection\<close>

text \<open>The check of the limiter and the count of the failure are separate steps with the
  router's answer in between: as long as none of them has finished, any number of logins from
  one address pass the check.\<close>

lemma logins_in_parallel:
  assumes "login_start en r w = (Inr c, w1)" "we_now en \<le> we_later en"
  shows "((\<lambda>(x :: response + rconfig, w). login_start en r w) ^^ n) (Inr c, w1) = (Inr c, w1)"
proof -
  obtain cr where cr: "decode creds_of_json r = Some cr"
    using login_start_cases [OF assms(1)] by blast
  obtain b w2 where a: "authRequired en w = (b, w2)" by force
  with assms(1) cr have b: "b" and w2: "w2 = w1"
    by (cases b; auto simp: login_start_def Let_def split: option.splits sum.splits)+
  note fr = authRequired_frame [OF a]
  have "authRequired en w1 = (True, w1)"
    using a b w2 assms(2)
    by (auto simp: authRequired_def routerReachable_def Let_def since_def reachCacheTTL_def secondNs_def
        split: if_splits sum.splits)
  with assms(1) cr a b w2 fr have "login_start en r w1 = (Inr c, w1)"
    by (auto simp: login_start_def same_auth_def same_data_def split: option.splits sum.splits)
  then show ?thesis by (induction n) (simp_all add: funpow.simps)
qed

text \<open>A locked address is told to wait, and the router is not asked.\<close>

lemma login_locked:
  assumes "decode creds_of_json r = Some cr" "authRequired en w = (True, w1)"
    and "allowed (clientIP r) (we_now en) (wb_limit w) = Some d"
  shows "\<exists>resp. login_handler en r w = (resp, w1) \<and> rp_code resp = 429 \<and> wb_rst w1 = wb_rst w"
  using assms authRequired_frame [OF assms(2)]
  by (auto simp: login_handler_def login_start_def Let_def fail_def respond_def same_auth_def same_data_def)

text \<open>\<open>safeNext\<close> passes a path whose second character is a backslash.\<close>

lemma safeNext_backslash: "safeNext (CHR ''/'' # CHR 0x5C # s) = CHR ''/'' # CHR 0x5C # s"
  by (simp add: safeNext_def has_prefix_def)

end
