(* ===== verification/Router_Nat.thy ===== *)
theory Router_Nat
  imports Router_Api Netip
begin

text \<open>
  Package \<open>router\<close>, file \<open>nat.go\<close>: the reconcilers of the firewall rules the proxy needs on
  the router, a dst-nat rule that diverts the WireGuard traffic into the container and a
  masquerade rule for the network of the WireGuard interface. A reconciler owns the rules
  whose comment is its marker with the interface's name. The commands are \<open>ros\<close>, those of
  the reconciler's \<open>Config\<close> (\<open>Router_Api.binapi_ros\<close>).
\<close>

section \<open>Rules\<close>

definition natCommentPrefix :: string where "natCommentPrefix = ''awgproxy-divert:''"
definition masqCommentPrefix :: string where "masqCommentPrefix = ''awgproxy-masquerade:''"

definition natComment :: "rconfig \<Rightarrow> string" where
  "natComment c = natCommentPrefix @ rc_Iface c"

definition masqComment :: "rconfig \<Rightarrow> string" where
  "masqComment c = masqCommentPrefix @ rc_Iface c"

definition ChainOutput :: string where "ChainOutput = ''output''"
definition ChainDstNat :: string where "ChainDstNat = ''dstnat''"

record DivertRule =
  dr_Chain :: string
  dr_SrcPort :: int
  dr_DstAddress :: ipaddr
  dr_DstPort :: int
  dr_ToAddress :: ipaddr
  dr_ToPort :: int

definition bad_port :: "int \<Rightarrow> bool" where
  "bad_port p \<longleftrightarrow> p \<le> 0 \<or> p > 65535"

text \<open>\<open>validate\<close>: the error, \<open>None\<close> for a valid rule.\<close>

definition validate_to :: "DivertRule \<Rightarrow> gerror option" where
  "validate_to r =
     (if bad_port (dr_DstPort r) then Some (Msg (''invalid dst-port '' @ Itoa (dr_DstPort r)))
      else if \<not> IsValid (dr_ToAddress r) then Some (Msg ''invalid to-address'')
      else if bad_port (dr_ToPort r) then Some (Msg (''invalid to-port '' @ Itoa (dr_ToPort r)))
      else None)"

definition validate :: "DivertRule \<Rightarrow> gerror option" where
  "validate r =
     (if dr_Chain r = ChainOutput then
        (if bad_port (dr_SrcPort r) then Some (Msg (''invalid src-port '' @ Itoa (dr_SrcPort r)))
         else if \<not> IsValid (dr_DstAddress r) then Some (Msg ''invalid dst-address'')
         else if Is6 (dr_DstAddress r) \<noteq> Is6 (dr_ToAddress r) then
           Some (Msg (''dst-address '' @ addr_string (dr_DstAddress r) @ '' and to-address '' @
             addr_string (dr_ToAddress r) @ '' are of different families''))
         else validate_to r)
      else if dr_Chain r = ChainDstNat then validate_to r
      else Some (Msg (''invalid chain '' @ dr_Chain r)))"

text \<open>\<open>fields\<close>: the rule in RouterOS notation.\<close>

definition rule_fields :: "DivertRule \<Rightarrow> row" where
  "rule_fields r =
     (let out = (dr_Chain r = ChainOutput);
          f = [(''chain'', dr_Chain r), (''protocol'', ''udp''), (''action'', ''dst-nat''),
               (''dst-port'', Itoa (dr_DstPort r)), (''to-addresses'', addr_string (dr_ToAddress r)),
               (''to-ports'', Itoa (dr_ToPort r)), (''disabled'', ''false'')];
          f = (if out then AList.update ''dst-address'' (addr_string (dr_DstAddress r))
                 (AList.update ''src-port'' (Itoa (dr_SrcPort r)) f) else f)
      in if Is6 (dr_ToAddress r) then
           (let f = AList.update ''to-address'' (prefix128_string (dr_ToAddress r))
                      (AList.delete ''to-addresses'' f)
            in if out then AList.update ''dst-address'' (prefix128_string (dr_DstAddress r)) f else f)
         else f)"

record natRule =
  n_ID :: string
  n_Chain :: string
  n_Protocol :: string
  n_Action :: string
  n_SrcAddress :: string
  n_SrcPort :: string
  n_DstAddress :: string
  n_DstPort :: string
  n_ToAddresses :: string
  n_ToPorts :: string
  n_Comment :: string
  n_Disabled :: string
  n_ToAddress :: string

definition natRuleFromMap :: "row \<Rightarrow> natRule" where
  "natRuleFromMap m =
     \<lparr>n_ID = fld m ''.id'', n_Chain = fld m ''chain'', n_Protocol = fld m ''protocol'',
      n_Action = fld m ''action'', n_SrcAddress = fld m ''src-address'',
      n_SrcPort = fld m ''src-port'', n_DstAddress = fld m ''dst-address'',
      n_DstPort = fld m ''dst-port'', n_ToAddresses = fld m ''to-addresses'',
      n_ToPorts = fld m ''to-ports'', n_Comment = fld m ''comment'',
      n_Disabled = fld m ''disabled'', n_ToAddress = fld m ''to-address''\<rparr>"

text \<open>The wanted fields whose values differ from the rule's. Go walks the map in an order of
  its own; the order here is the list's, and \<open>set_fields\<close> does not depend on it.\<close>

definition diffFields :: "natRule \<Rightarrow> row \<Rightarrow> row" where
  "diffFields got want =
     (let cur = [(''chain'', n_Chain got), (''protocol'', n_Protocol got), (''action'', n_Action got),
                 (''src-port'', n_SrcPort got), (''dst-address'', n_DstAddress got),
                 (''dst-port'', n_DstPort got), (''to-addresses'', n_ToAddresses got),
                 (''to-ports'', n_ToPorts got), (''comment'', n_Comment got),
                 (''disabled'', n_Disabled got), (''to-address'', n_ToAddress got)]
      in filter (\<lambda>p. fld cur (fst p) \<noteq> snd p) want)"

definition diffMasqFields :: "natRule \<Rightarrow> row \<Rightarrow> row" where
  "diffMasqFields got want =
     (let cur = [(''chain'', n_Chain got), (''action'', n_Action got),
                 (''src-address'', n_SrcAddress got), (''comment'', n_Comment got),
                 (''disabled'', n_Disabled got)]
      in filter (\<lambda>p. fld cur (fst p) \<noteq> snd p) want)"

section \<open>The divert reconciler\<close>

record NatReconciler =
  nr_cfg :: rconfig
  nr_lastLog :: string
  nr_path :: string

definition NewNatReconciler :: "rconfig \<Rightarrow> NatReconciler" where
  "NewNatReconciler c = \<lparr>nr_cfg = c, nr_lastLog = [], nr_path = ''/ip/firewall/nat''\<rparr>"

definition NewNatReconciler6 :: "rconfig \<Rightarrow> NatReconciler" where
  "NewNatReconciler6 c = \<lparr>nr_cfg = c, nr_lastLog = [], nr_path = ''/ipv6/firewall/nat''\<rparr>"

definition nat_logTransition :: "string \<Rightarrow> NatReconciler \<Rightarrow> NatReconciler" where
  "nat_logTransition action n = n\<lparr>nr_lastLog := action\<rparr>"

definition nat_list :: "'s ros \<Rightarrow> NatReconciler \<Rightarrow> 's \<Rightarrow> (gerror + natRule list) \<times> 's" where
  "nat_list ros n s =
     (case ros_print ros (nr_path n) s of
        (Inl e, s) \<Rightarrow> (Inl e, s)
      | (Inr rows, s) \<Rightarrow>
          (Inr (map natRuleFromMap (filter (\<lambda>r. fld r ''comment'' = natComment (nr_cfg n)) rows)), s))"

text \<open>The loop over the surplus rules: errors are ignored.\<close>

fun remove_extra :: "'s ros \<Rightarrow> string \<Rightarrow> natRule list \<Rightarrow> 's \<Rightarrow> 's" where
  "remove_extra ros path [] s = s"
| "remove_extra ros path (r # rs) s = remove_extra ros path rs (snd (ros_remove ros path (n_ID r) s))"

definition nat_Ensure ::
  "'s ros \<Rightarrow> NatReconciler \<Rightarrow> DivertRule \<Rightarrow> 's \<Rightarrow> gerror option \<times> NatReconciler \<times> 's" where
  "nat_Ensure ros n want s =
     (case validate want of
        Some e \<Rightarrow> (Some e, n, s)
      | None \<Rightarrow>
     (case nat_list ros n s of
        (Inl e, s) \<Rightarrow> (Some e, n, s)
      | (Inr cur, s) \<Rightarrow>
     (let wantFields = AList.update ''comment'' (natComment (nr_cfg n)) (rule_fields want);
          s = remove_extra ros (nr_path n) (drop 1 cur) s
      in case cur of
        [] \<Rightarrow>
          (case ros_add ros (nr_path n) wantFields s of
             (Inl e, s) \<Rightarrow> (Some (Wrap ''add nat'' e), n, s)
           | (Inr _, s) \<Rightarrow> (None, nat_logTransition ''installed'' n, s))
      | existing # _ \<Rightarrow>
          if n_Chain existing \<noteq> dr_Chain want then
            (case ros_remove ros (nr_path n) (n_ID existing) s of
               (Inl e, s) \<Rightarrow> (Some (Wrap ''delete stale nat'' e), n, s)
             | (Inr _, s) \<Rightarrow>
                 (case ros_add ros (nr_path n) wantFields s of
                    (Inl e, s) \<Rightarrow> (Some (Wrap ''recreate nat'' e), n, s)
                  | (Inr _, s) \<Rightarrow> (None, nat_logTransition ''rebuilt'' n, s)))
          else
            (let diff = diffFields existing wantFields in
             if diff = [] then (None, nat_logTransition ''active'' n, s)
             else case ros_set ros (nr_path n) (n_ID existing) diff s of
                 (Inl e, s) \<Rightarrow> (Some (Wrap ''update nat'' e), n, s)
               | (Inr _, s) \<Rightarrow> (None, nat_logTransition ''updated'' n, s)))))"

text \<open>The loop of the two \<open>Remove\<close>s: it stops at the first error.\<close>

fun remove_rules :: "'s ros \<Rightarrow> string \<Rightarrow> string \<Rightarrow> natRule list \<Rightarrow> 's \<Rightarrow> gerror option \<times> 's" where
  "remove_rules ros path what [] s = (None, s)"
| "remove_rules ros path what (r # rs) s =
     (case ros_remove ros path (n_ID r) s of
        (Inl e, s) \<Rightarrow> (Some (Wrap (what @ n_ID r) e), s)
      | (Inr _, s) \<Rightarrow> remove_rules ros path what rs s)"

definition nat_Remove :: "'s ros \<Rightarrow> NatReconciler \<Rightarrow> 's \<Rightarrow> gerror option \<times> NatReconciler \<times> 's" where
  "nat_Remove ros n s =
     (case nat_list ros n s of
        (Inl e, s) \<Rightarrow> (Some e, n, s)
      | (Inr cur, s) \<Rightarrow>
          (case remove_rules ros (nr_path n) ''delete nat '' cur s of
             (Some e, s) \<Rightarrow> (Some e, n, s)
           | (None, s) \<Rightarrow> (None, if cur = [] then n else nat_logTransition ''removed'' n, s)))"

section \<open>The masquerade reconciler\<close>

record MasqueradeReconciler =
  mr_cfg :: rconfig
  mr_lastLog :: string

definition NewMasqueradeReconciler :: "rconfig \<Rightarrow> MasqueradeReconciler" where
  "NewMasqueradeReconciler c = \<lparr>mr_cfg = c, mr_lastLog = []\<rparr>"

definition masq_logTransition :: "string \<Rightarrow> MasqueradeReconciler \<Rightarrow> MasqueradeReconciler" where
  "masq_logTransition action m = m\<lparr>mr_lastLog := action\<rparr>"

definition masq_list :: "'s ros \<Rightarrow> MasqueradeReconciler \<Rightarrow> 's \<Rightarrow> (gerror + natRule list) \<times> 's" where
  "masq_list ros m s =
     (case ros_print ros ''/ip/firewall/nat'' s of
        (Inl e, s) \<Rightarrow> (Inl e, s)
      | (Inr rows, s) \<Rightarrow>
          (Inr (map natRuleFromMap (filter (\<lambda>r. fld r ''comment'' = masqComment (mr_cfg m)) rows)), s))"

definition masq_fields :: "MasqueradeReconciler \<Rightarrow> ipprefix \<Rightarrow> row" where
  "masq_fields m network =
     [(''chain'', ''srcnat''), (''action'', ''masquerade''), (''src-address'', prefix_string network),
      (''comment'', masqComment (mr_cfg m)), (''disabled'', ''false'')]"

definition masq_Ensure ::
  "'s ros \<Rightarrow> MasqueradeReconciler \<Rightarrow> ipprefix \<Rightarrow> 's \<Rightarrow> gerror option \<times> MasqueradeReconciler \<times> 's" where
  "masq_Ensure ros m network s =
     (if \<not> PrefixValid network then (Some (Msg ''invalid network''), m, s)
      else
     (let want = masq_fields m network in
      case masq_list ros m s of
        (Inl e, s) \<Rightarrow> (Some e, m, s)
      | (Inr cur, s) \<Rightarrow>
     (let s = remove_extra ros ''/ip/firewall/nat'' (drop 1 cur) s
      in case cur of
        [] \<Rightarrow>
          (case ros_add ros ''/ip/firewall/nat'' want s of
             (Inl e, s) \<Rightarrow> (Some (Wrap ''add masquerade'' e), m, s)
           | (Inr _, s) \<Rightarrow> (None, masq_logTransition ''installed'' m, s))
      | existing # _ \<Rightarrow>
          (let diff = diffMasqFields existing want in
           if diff = [] then (None, masq_logTransition ''active'' m, s)
           else case ros_set ros ''/ip/firewall/nat'' (n_ID existing) diff s of
               (Inl e, s) \<Rightarrow> (Some (Wrap ''update masquerade'' e), m, s)
             | (Inr _, s) \<Rightarrow> (None, masq_logTransition ''updated'' m, s)))))"

definition masq_Remove ::
  "'s ros \<Rightarrow> MasqueradeReconciler \<Rightarrow> 's \<Rightarrow> gerror option \<times> MasqueradeReconciler \<times> 's" where
  "masq_Remove ros m s =
     (case masq_list ros m s of
        (Inl e, s) \<Rightarrow> (Some e, m, s)
      | (Inr cur, s) \<Rightarrow>
          (case remove_rules ros ''/ip/firewall/nat'' ''delete masquerade '' cur s of
             (Some e, s) \<Rightarrow> (Some e, m, s)
           | (None, s) \<Rightarrow> (None, if cur = [] then m else masq_logTransition ''removed'' m, s)))"

section \<open>What both reconcilers rely on\<close>

text \<open>The difference function of a reconciler reports exactly the wanted fields the listed
  record does not hold, for the fields the reconciler manages.\<close>

locale rule_diff =
  fixes diff :: "natRule \<Rightarrow> row \<Rightarrow> row" and managed :: "string set"
  assumes diff_eq: "fst ` set want \<subseteq> managed \<Longrightarrow>
      diff (natRuleFromMap r) want = filter (\<lambda>p. fld r (fst p) \<noteq> snd p) want"
begin

lemma diff_nil_iff:
  "fst ` set want \<subseteq> managed \<Longrightarrow> diff (natRuleFromMap r) want = [] \<longleftrightarrow> holds_fields want r"
  by (simp add: diff_eq holds_fields_def filter_empty_conv)

lemma reconciled_set_diff:
  assumes "fst ` set want \<subseteq> managed" "''.id'' \<notin> managed" "distinct (map fst want)"
    and "ids_distinct t" "filter P t = [r]" "\<And>r. holds_fields want r \<Longrightarrow> P r"
  shows "reconciled P want t (map (\<lambda>x. if rec_id x = rec_id r
      then set_fields (diff (natRuleFromMap r) want) x else x) t)"
  using assms by (subst diff_eq) (auto intro!: reconciled_set)

end

definition nat_managed :: "string set" where
  "nat_managed = {''chain'', ''protocol'', ''action'', ''src-port'', ''dst-address'', ''dst-port'',
     ''to-addresses'', ''to-ports'', ''comment'', ''disabled'', ''to-address''}"

definition masq_managed :: "string set" where
  "masq_managed = {''chain'', ''action'', ''src-address'', ''comment'', ''disabled''}"

interpretation divert: rule_diff diffFields nat_managed
proof
  fix want r :: row assume "fst ` set want \<subseteq> nat_managed"
  then show "diffFields (natRuleFromMap r) want = filter (\<lambda>p. fld r (fst p) \<noteq> snd p) want"
    unfolding diffFields_def Let_def nat_managed_def
    by (intro filter_cong refl) (auto simp: natRuleFromMap_def fld_def [of "_ # _"] dest!: subsetD)
qed

interpretation masq: rule_diff diffMasqFields masq_managed
proof
  fix want r :: row assume "fst ` set want \<subseteq> masq_managed"
  then show "diffMasqFields (natRuleFromMap r) want = filter (\<lambda>p. fld r (fst p) \<noteq> snd p) want"
    unfolding diffMasqFields_def Let_def masq_managed_def
    by (intro filter_cong refl) (auto simp: natRuleFromMap_def fld_def [of "_ # _"] dest!: subsetD)
qed

section \<open>The loops over a table\<close>

lemma tbl_remove_extra:
  assumes "table_router ros tbl"
  shows "tbl (remove_extra ros path rs s) =
    (tbl s)(path := filter (\<lambda>r. rec_id r \<notin> n_ID ` set rs) (tbl s path))"
proof (induction rs arbitrary: s)
  case (Cons r rs)
  obtain s' where "ros_remove ros path (n_ID r) s = (Inr (), s')"
    "tbl s' = (tbl s)(path := filter (\<lambda>x. rec_id x \<noteq> n_ID r) (tbl s path))"
    using table_removeE [OF assms] .
  then show ?case by (simp add: Cons.IH) (auto intro!: arg_cong2 [where f = filter])
qed simp

lemma tbl_remove_rules:
  assumes "table_router ros tbl"
  shows "\<exists>s'. remove_rules ros path what rs s = (None, s') \<and>
    tbl s' = (tbl s)(path := filter (\<lambda>r. rec_id r \<notin> n_ID ` set rs) (tbl s path))"
proof (induction rs arbitrary: s)
  case (Cons r rs)
  obtain s1 where s1: "ros_remove ros path (n_ID r) s = (Inr (), s1)"
    "tbl s1 = (tbl s)(path := filter (\<lambda>x. rec_id x \<noteq> n_ID r) (tbl s path))"
    using table_removeE [OF assms] .
  obtain s' where "remove_rules ros path what rs s1 = (None, s')"
    "tbl s' = (tbl s1)(path := filter (\<lambda>r. rec_id r \<notin> n_ID ` set rs) (tbl s1 path))"
    using Cons.IH by blast
  with s1 show ?case by simp (auto intro!: arg_cong2 [where f = filter])
qed simp

lemma n_ID_FromMap [simp]: "n_ID (natRuleFromMap r) = rec_id r"
  by (simp add: natRuleFromMap_def)

lemma n_ID_map [simp]: "n_ID ` natRuleFromMap ` A = rec_id ` A"
  by (auto simp: image_image)

lemma table_add_reconciles:
  assumes ros: "table_router ros tbl" and t: "ids_distinct (tbl s p)" "filter P (tbl s p) = []"
    and want: "distinct (map fst want)" "''.id'' \<notin> fst ` set want"
    and P: "\<And>r. holds_fields want r \<Longrightarrow> P r"
  shows "\<exists>s' rid. ros_add ros p want s = (Inr rid, s') \<and>
    reconciled P want (tbl s p) (tbl s' p) \<and> (\<forall>q. q \<noteq> p \<longrightarrow> tbl s' q = tbl s q)"
proof -
  obtain s' rid where s': "ros_add ros p want s = (Inr rid, s')"
    "rid \<notin> rec_id ` set (tbl s p)" "tbl s' = (tbl s)(p := tbl s p @ [(''.id'', rid) # want])"
    using table_addE [OF ros] .
  from reconciled_add [OF t s'(2) want P] s' show ?thesis by simp
qed

lemma table_recreate_reconciles:
  assumes ros: "table_router ros tbl" and r: "ids_distinct (tbl s p)" "filter P (tbl s p) = [r]"
    and want: "distinct (map fst want)" "''.id'' \<notin> fst ` set want"
    and P: "\<And>r. holds_fields want r \<Longrightarrow> P r"
  shows "\<exists>s1 s' rid. ros_remove ros p (rec_id r) s = (Inr (), s1) \<and>
    ros_add ros p want s1 = (Inr rid, s') \<and>
    reconciled P want (tbl s p) (tbl s' p) \<and> (\<forall>q. q \<noteq> p \<longrightarrow> tbl s' q = tbl s q)"
proof -
  obtain s1 where s1: "ros_remove ros p (rec_id r) s = (Inr (), s1)"
    "tbl s1 = (tbl s)(p := filter (\<lambda>x. rec_id x \<noteq> rec_id r) (tbl s p))"
    using table_removeE [OF ros] .
  obtain s' rid where s': "ros_add ros p want s1 = (Inr rid, s')"
    "rid \<notin> rec_id ` set (tbl s1 p)" "tbl s' = (tbl s1)(p := tbl s1 p @ [(''.id'', rid) # want])"
    using table_addE [OF ros] .
  from s'(2) have "rid \<notin> rec_id ` set (filter (\<lambda>x. rec_id x \<noteq> rec_id r) (tbl s p))" by (simp add: s1)
  from reconciled_recreate [OF r this want P] s1 s' show ?thesis by simp
qed

context rule_diff
begin

lemma table_set_reconciles:
  assumes ros: "table_router ros tbl" and r: "ids_distinct (tbl s p)" "filter P (tbl s p) = [r]"
    and want: "fst ` set want \<subseteq> managed" "''.id'' \<notin> managed" "distinct (map fst want)"
    and P: "\<And>r. holds_fields want r \<Longrightarrow> P r"
  shows "\<exists>s'. ros_set ros p (rec_id r) (diff (natRuleFromMap r) want) s = (Inr (), s') \<and>
    reconciled P want (tbl s p) (tbl s' p) \<and> (\<forall>q. q \<noteq> p \<longrightarrow> tbl s' q = tbl s q)"
proof -
  obtain s' where "ros_set ros p (rec_id r) (diff (natRuleFromMap r) want) s = (Inr (), s')"
    "tbl s' = (tbl s)(p := map (\<lambda>x. if rec_id x = rec_id r
       then set_fields (diff (natRuleFromMap r) want) x else x) (tbl s p))"
    using table_setE [OF ros] .
  with reconciled_set_diff [OF want r P] show ?thesis
    by (intro exI [of _ s']) simp
qed

end

section \<open>The divert rule\<close>

definition nat_ours :: "NatReconciler \<Rightarrow> row \<Rightarrow> bool" where
  "nat_ours n r \<longleftrightarrow> fld r ''comment'' = natComment (nr_cfg n)"

definition nat_row :: "NatReconciler \<Rightarrow> DivertRule \<Rightarrow> row" where
  "nat_row n want = AList.update ''comment'' (natComment (nr_cfg n)) (rule_fields want)"

lemma nat_listE:
  assumes "table_router ros tbl"
  obtains s' where "nat_list ros n s =
      (Inr (map natRuleFromMap (filter (nat_ours n) (tbl s (nr_path n)))), s')" "tbl s' = tbl s"
proof -
  obtain s' where "ros_print ros (nr_path n) s = (Inr (tbl s (nr_path n)), s')" "tbl s' = tbl s"
    using table_printE [OF assms] .
  then show thesis by (intro that [of s']) (auto simp: nat_list_def nat_ours_def [abs_def])
qed

lemma nat_row_keys:
  "distinct (map fst (nat_row n want))" "fst ` set (nat_row n want) \<subseteq> nat_managed"
  "''.id'' \<notin> nat_managed" "''.id'' \<notin> fst ` set (nat_row n want)"
  by (auto simp: nat_row_def rule_fields_def nat_managed_def Let_def)

lemma nat_row_chain:
  "holds_fields (nat_row n want) r \<Longrightarrow> fld r ''chain'' = dr_Chain want"
  by (auto simp: nat_row_def rule_fields_def Let_def holds_fields_def split: if_splits)

lemma nat_row_ours: "holds_fields (nat_row n want) r \<Longrightarrow> nat_ours n r"
  by (auto simp: nat_row_def rule_fields_def Let_def holds_fields_def nat_ours_def split: if_splits)

lemmas nat_row = nat_row_keys nat_row_chain nat_row_ours

text \<open>\<open>Ensure\<close> on a table; the log message is the only part of the reconciler that
  changes.\<close>

lemma nat_Ensure_table:
  assumes ros: "table_router ros tbl" and t: "ids_distinct (tbl s (nr_path n))"
    and valid: "validate want = None"
  shows "\<exists>a s'. nat_Ensure ros n want s = (None, nat_logTransition a n, s') \<and>
    reconciled (nat_ours n) (nat_row n want) (tbl s (nr_path n)) (tbl s' (nr_path n)) \<and>
    (\<forall>p. p \<noteq> nr_path n \<longrightarrow> tbl s' p = tbl s p)"
proof -
  let ?p = "nr_path n" and ?P = "nat_ours n" and ?w = "nat_row n want"
  obtain s1 where s1: "nat_list ros n s = (Inr (map natRuleFromMap (filter ?P (tbl s ?p))), s1)"
    "tbl s1 = tbl s" using nat_listE [OF ros] .
  note E = nat_Ensure_def [of ros n want s, folded nat_row_def]
  note k = nat_row_keys(1,4,2) [of n want] and ours = nat_row_ours [of n want]
  show ?thesis
  proof (cases "filter ?P (tbl s ?p)")
    case Nil
    with t s1 have t1: "ids_distinct (tbl s1 ?p)" "filter ?P (tbl s1 ?p) = []" by simp_all
    from table_add_reconciles [OF ros t1 k(1,2) ours] Nil valid s1
    show ?thesis by (auto simp: E)
  next
    case (Cons r rs)
    let ?t1 = "filter (\<lambda>r. rec_id r \<notin> rec_id ` set rs) (tbl s ?p)"
    define s2 where "s2 = remove_extra ros ?p (map natRuleFromMap rs) s1"
    have tbl2: "tbl s2 = (tbl s)(?p := ?t1)" by (simp add: s2_def tbl_remove_extra [OF ros] s1)
    have t1: "ids_distinct (tbl s2 ?p)" "filter ?P (tbl s2 ?p) = [r]"
      using ids_distinct_filter [OF t] remove_all_but_first [OF t Cons] by (simp_all add: tbl2)
    note surplus = reconciled_surplus [OF t Cons]
    have chain: "n_Chain (natRuleFromMap r) = fld r ''chain''" by (simp add: natRuleFromMap_def)
    consider "fld r ''chain'' \<noteq> dr_Chain want"
      | "fld r ''chain'' = dr_Chain want" "diffFields (natRuleFromMap r) ?w = []"
      | "fld r ''chain'' = dr_Chain want" "diffFields (natRuleFromMap r) ?w \<noteq> []" by blast
    then show ?thesis
    proof cases
      case 1
      from table_recreate_reconciles [OF ros t1 k(1,2) ours] valid s1 Cons tbl2 1 show ?thesis
        by (auto simp: E chain simp flip: s2_def intro!: surplus)
    next
      case 2
      then have "reconciled ?P ?w (tbl s2 ?p) (tbl s2 ?p)"
        using divert.diff_nil_iff [OF nat_row_keys(2)] by (intro reconciled_keep [OF t1]) simp
      with valid s1 Cons tbl2 2 show ?thesis
        by (auto simp: E chain simp flip: s2_def intro!: surplus)
    next
      case 3
      from divert.table_set_reconciles [OF ros t1 k(3) nat_row_keys(3) k(1) ours] valid s1 Cons tbl2 3 show ?thesis
        by (auto simp: E chain simp flip: s2_def intro!: surplus)
    qed
  qed
qed

text \<open>A table that already holds the wanted rule is only read.\<close>

lemma nat_Ensure_settled:
  assumes ros: "table_router ros tbl" and valid: "validate want = None"
    and r: "filter (nat_ours n) (tbl s (nr_path n)) = [r]" "holds_fields (nat_row n want) r"
  shows "nat_Ensure ros n want s = (None, nat_logTransition ''active'' n, snd (ros_print ros (nr_path n) s))"
proof -
  obtain s1 where s1: "ros_print ros (nr_path n) s = (Inr (tbl s (nr_path n)), s1)"
    using table_printE [OF ros] .
  have "diffFields (natRuleFromMap r) (nat_row n want) = []"
    using divert.diff_nil_iff [OF nat_row_keys(2)] r(2) by simp
  moreover have "n_Chain (natRuleFromMap r) = dr_Chain want"
    using nat_row_chain [OF r(2)] by (simp add: natRuleFromMap_def)
  ultimately show ?thesis
    using s1 valid r(1) [unfolded nat_ours_def]
    by (simp add: nat_Ensure_def nat_list_def flip: nat_row_def)
qed

lemma nat_Remove_table:
  assumes ros: "table_router ros tbl" and t: "ids_distinct (tbl s (nr_path n))"
  shows "\<exists>n' s'. nat_Remove ros n s = (None, n', s') \<and> nr_cfg n' = nr_cfg n \<and> nr_path n' = nr_path n \<and>
    tbl s' = (tbl s)(nr_path n := filter (\<lambda>r. \<not> nat_ours n r) (tbl s (nr_path n)))"
proof -
  let ?p = "nr_path n" and ?P = "nat_ours n"
  obtain s1 where s1: "nat_list ros n s = (Inr (map natRuleFromMap (filter ?P (tbl s ?p))), s1)"
    "tbl s1 = tbl s" using nat_listE [OF ros] .
  obtain s2 where s2: "remove_rules ros ?p ''delete nat '' (map natRuleFromMap (filter ?P (tbl s ?p))) s1 = (None, s2)"
    "tbl s2 = (tbl s1)(?p := filter (\<lambda>r. rec_id r \<notin> n_ID ` set (map natRuleFromMap (filter ?P (tbl s ?p)))) (tbl s1 ?p))"
    using tbl_remove_rules [OF ros] by blast
  have "filter (\<lambda>r. rec_id r \<notin> rec_id ` {x \<in> set (tbl s ?p). ?P x}) (tbl s ?p) = filter (\<lambda>r. \<not> ?P r) (tbl s ?p)"
    using ids_distinct_inj [OF t] by (intro filter_cong refl) blast
  with s1 s2 show ?thesis by (simp add: nat_Remove_def nat_logTransition_def)
qed

section \<open>The masquerade rule\<close>

definition masq_ours :: "MasqueradeReconciler \<Rightarrow> row \<Rightarrow> bool" where
  "masq_ours m r \<longleftrightarrow> fld r ''comment'' = masqComment (mr_cfg m)"

lemma masq_listE:
  assumes "table_router ros tbl"
  obtains s' where "masq_list ros m s =
      (Inr (map natRuleFromMap (filter (masq_ours m) (tbl s ''/ip/firewall/nat''))), s')" "tbl s' = tbl s"
proof -
  obtain s' where "ros_print ros ''/ip/firewall/nat'' s = (Inr (tbl s ''/ip/firewall/nat''), s')"
    "tbl s' = tbl s" using table_printE [OF assms] .
  then show thesis by (intro that [of s']) (auto simp: masq_list_def masq_ours_def [abs_def])
qed

lemma masq_fields_keys:
  "distinct (map fst (masq_fields m net))" "''.id'' \<notin> fst ` set (masq_fields m net)"
  "fst ` set (masq_fields m net) \<subseteq> masq_managed"
  by (auto simp: masq_fields_def masq_managed_def)

lemma id_not_masq_managed: "''.id'' \<notin> masq_managed"
  by (simp add: masq_managed_def)

lemma masq_fields_ours: "holds_fields (masq_fields m net) r \<Longrightarrow> masq_ours m r"
  by (auto simp: masq_fields_def holds_fields_def masq_ours_def)

lemma masq_Ensure_at:
  assumes p: "p = ''/ip/firewall/nat''"
    and ros: "table_router ros tbl" and t: "ids_distinct (tbl s p)"
    and valid: "PrefixValid net"
  shows "\<exists>a s'. masq_Ensure ros m net s = (None, masq_logTransition a m, s') \<and>
    reconciled (masq_ours m) (masq_fields m net) (tbl s p) (tbl s' p) \<and>
    (\<forall>q. q \<noteq> p \<longrightarrow> tbl s' q = tbl s q)"
proof -
  let ?p = p and ?P = "masq_ours m" and ?w = "masq_fields m net"
  note E = masq_Ensure_def [of ros m net s, folded p]
  obtain s1 where s1: "masq_list ros m s = (Inr (map natRuleFromMap (filter ?P (tbl s ?p))), s1)"
    "tbl s1 = tbl s" using masq_listE [OF ros, folded p] .
  note k = masq_fields_keys [of m net] and ours = masq_fields_ours [of m net]
  show ?thesis
  proof (cases "filter ?P (tbl s ?p)")
    case Nil
    with t s1 have t1: "ids_distinct (tbl s1 ?p)" "filter ?P (tbl s1 ?p) = []" by simp_all
    from table_add_reconciles [OF ros t1 k(1,2) ours] Nil valid s1
    show ?thesis by (auto simp: E)
  next
    case (Cons r rs)
    let ?t1 = "filter (\<lambda>r. rec_id r \<notin> rec_id ` set rs) (tbl s ?p)"
    define s2 where "s2 = remove_extra ros ?p (map natRuleFromMap rs) s1"
    have tbl2: "tbl s2 = (tbl s)(?p := ?t1)" by (simp add: s2_def tbl_remove_extra [OF ros] s1)
    have t1: "ids_distinct (tbl s2 ?p)" "filter ?P (tbl s2 ?p) = [r]"
      using ids_distinct_filter [OF t] remove_all_but_first [OF t Cons] by (simp_all add: tbl2)
    note surplus = reconciled_surplus [OF t Cons]
    show ?thesis
    proof (cases "diffMasqFields (natRuleFromMap r) ?w = []")
      case True
      then have "reconciled ?P ?w (tbl s2 ?p) (tbl s2 ?p)"
        using masq.diff_nil_iff [OF k(3)] by (intro reconciled_keep [OF t1]) simp
      with valid s1 Cons tbl2 True show ?thesis
        by (auto simp: E simp flip: s2_def intro!: surplus)
    next
      case False
      from masq.table_set_reconciles [OF ros t1 k(3) id_not_masq_managed k(1) ours] valid s1 Cons tbl2 False
      show ?thesis by (auto simp: E simp flip: s2_def intro!: surplus)
    qed
  qed
qed

lemmas masq_Ensure_table = masq_Ensure_at [OF refl]

lemma masq_Remove_table:
  assumes ros: "table_router ros tbl" and t: "ids_distinct (tbl s ''/ip/firewall/nat'')"
  shows "\<exists>m' s'. masq_Remove ros m s = (None, m', s') \<and>
    tbl s' = (tbl s)(''/ip/firewall/nat'' :=
      filter (\<lambda>r. \<not> masq_ours m r) (tbl s ''/ip/firewall/nat''))"
proof -
  let ?p = "''/ip/firewall/nat''" and ?P = "masq_ours m"
  obtain s1 where s1: "masq_list ros m s = (Inr (map natRuleFromMap (filter ?P (tbl s ?p))), s1)"
    "tbl s1 = tbl s" using masq_listE [OF ros] .
  obtain s2 where s2: "remove_rules ros ?p ''delete masquerade '' (map natRuleFromMap (filter ?P (tbl s ?p))) s1 = (None, s2)"
    "tbl s2 = (tbl s1)(?p := filter (\<lambda>r. rec_id r \<notin> n_ID ` set (map natRuleFromMap (filter ?P (tbl s ?p)))) (tbl s1 ?p))"
    using tbl_remove_rules [OF ros] by blast
  have "filter (\<lambda>r. rec_id r \<notin> rec_id ` {x \<in> set (tbl s ?p). ?P x}) (tbl s ?p) = filter (\<lambda>r. \<not> ?P r) (tbl s ?p)"
    using ids_distinct_inj [OF t] by (intro filter_cong refl) blast
  with s1 s2 show ?thesis by (simp add: masq_Remove_def)
qed

section \<open>Several reconcilers on one router\<close>

datatype rule_op =
    EnsureDivert NatReconciler DivertRule
  | RemoveDivert NatReconciler
  | EnsureMasq MasqueradeReconciler ipprefix
  | RemoveMasq MasqueradeReconciler

fun exec_rule_op :: "'s ros \<Rightarrow> 's \<Rightarrow> rule_op \<Rightarrow> 's" where
  "exec_rule_op ros s (EnsureDivert n want) = snd (snd (nat_Ensure ros n want s))"
| "exec_rule_op ros s (RemoveDivert n) = snd (snd (nat_Remove ros n s))"
| "exec_rule_op ros s (EnsureMasq m net) = snd (snd (masq_Ensure ros m net s))"
| "exec_rule_op ros s (RemoveMasq m) = snd (snd (masq_Remove ros m s))"

fun op_marker :: "rule_op \<Rightarrow> string" where
  "op_marker (EnsureDivert n want) = natComment (nr_cfg n)"
| "op_marker (RemoveDivert n) = natComment (nr_cfg n)"
| "op_marker (EnsureMasq m net) = masqComment (mr_cfg m)"
| "op_marker (RemoveMasq m) = masqComment (mr_cfg m)"

fun op_iface :: "rule_op \<Rightarrow> string" where
  "op_iface (EnsureDivert n want) = rc_Iface (nr_cfg n)"
| "op_iface (RemoveDivert n) = rc_Iface (nr_cfg n)"
| "op_iface (EnsureMasq m net) = rc_Iface (mr_cfg m)"
| "op_iface (RemoveMasq m) = rc_Iface (mr_cfg m)"

definition tables_ok :: "('s \<Rightarrow> string \<Rightarrow> row list) \<Rightarrow> 's \<Rightarrow> bool" where
  "tables_ok tbl s \<longleftrightarrow> (\<forall>p. ids_distinct (tbl s p))"

lemma reconciled_frame:
  assumes "tables_ok tbl s" "reconciled P want (tbl s q) (tbl s' q)" "\<forall>p. p \<noteq> q \<longrightarrow> tbl s' p = tbl s p"
    and "s'' = s'" "\<And>r. P r \<longleftrightarrow> fld r ''comment'' = mk"
  shows "tables_ok tbl s'' \<and> (\<forall>p. filter (\<lambda>r. fld r ''comment'' \<noteq> mk) (tbl s'' p) =
         filter (\<lambda>r. fld r ''comment'' \<noteq> mk) (tbl s p))"
proof -
  have "ids_distinct (tbl s' p) \<and> filter (\<lambda>r. fld r ''comment'' \<noteq> mk) (tbl s' p) =
         filter (\<lambda>r. fld r ''comment'' \<noteq> mk) (tbl s p)" for p
    using assms by (cases "p = q") (simp_all add: tables_ok_def reconciled_def)
  with assms(4) show ?thesis by (simp add: tables_ok_def)
qed

lemma exec_rule_op_frame:
  assumes ros: "table_router ros tbl" and ok: "tables_ok tbl s"
  shows "tables_ok tbl (exec_rule_op ros s op) \<and>
    (\<forall>p. filter (\<lambda>r. fld r ''comment'' \<noteq> op_marker op) (tbl (exec_rule_op ros s op) p) =
         filter (\<lambda>r. fld r ''comment'' \<noteq> op_marker op) (tbl s p))"
proof (cases op)
  case (EnsureDivert n want)
  show ?thesis
  proof (cases "validate want")
    case None
    with nat_Ensure_table [OF ros, of s n want] ok obtain a s' where
      s': "nat_Ensure ros n want s = (None, nat_logTransition a n, s')"
        "reconciled (nat_ours n) (nat_row n want) (tbl s (nr_path n)) (tbl s' (nr_path n))"
        "\<forall>p. p \<noteq> nr_path n \<longrightarrow> tbl s' p = tbl s p" by (auto simp: tables_ok_def)
    from ok show ?thesis
      by (rule reconciled_frame [OF _ s'(2,3)])
        (simp_all add: EnsureDivert s'(1) nat_ours_def)
  next
    case (Some e)
    then show ?thesis using ok EnsureDivert by (simp add: nat_Ensure_def)
  qed
next
  case (RemoveDivert n)
  with nat_Remove_table [OF ros, of s n] ok show ?thesis
    by (auto simp: tables_ok_def nat_ours_def ids_distinct_filter)
next
  case (EnsureMasq m net)
  show ?thesis
  proof (cases "PrefixValid net")
    case True
    with masq_Ensure_table [OF ros, of s net m] ok obtain a s' where
      s': "masq_Ensure ros m net s = (None, masq_logTransition a m, s')"
        "reconciled (masq_ours m) (masq_fields m net) (tbl s ''/ip/firewall/nat'') (tbl s' ''/ip/firewall/nat'')"
        "\<forall>p. p \<noteq> ''/ip/firewall/nat'' \<longrightarrow> tbl s' p = tbl s p" by (auto simp: tables_ok_def)
    from ok show ?thesis
      by (rule reconciled_frame [OF _ s'(2,3)])
        (simp_all add: EnsureMasq s'(1) masq_ours_def)
  next
    case False
    then show ?thesis using ok EnsureMasq by (simp add: masq_Ensure_def)
  qed
next
  case (RemoveMasq m)
  with masq_Remove_table [OF ros, of s m] ok show ?thesis
    by (auto simp: tables_ok_def masq_ours_def ids_distinct_filter)
qed

lemma run_rule_ops_frame:
  assumes ros: "table_router ros tbl" and "tables_ok tbl s"
    and "\<forall>op \<in> set ops. op_marker op \<notin> M"
  shows "tables_ok tbl (foldl (exec_rule_op ros) s ops) \<and>
    filter (\<lambda>r. fld r ''comment'' \<in> M) (tbl (foldl (exec_rule_op ros) s ops) p) =
    filter (\<lambda>r. fld r ''comment'' \<in> M) (tbl s p)"
  using assms(2,3)
proof (induction ops arbitrary: s)
  case (Cons op ops)
  let ?s = "exec_rule_op ros s op"
  from Cons.prems have step: "tables_ok tbl ?s"
    "filter (\<lambda>r. fld r ''comment'' \<noteq> op_marker op) (tbl ?s p) =
     filter (\<lambda>r. fld r ''comment'' \<noteq> op_marker op) (tbl s p)"
    using exec_rule_op_frame [OF ros] by simp_all
  have sub: "filter (\<lambda>r. fld r ''comment'' \<in> M) t =
      filter (\<lambda>r. fld r ''comment'' \<in> M) (filter (\<lambda>r. fld r ''comment'' \<noteq> op_marker op) t)" for t
    using Cons.prems(2) by (auto intro: filter_cong)
  have "filter (\<lambda>r. fld r ''comment'' \<in> M) (tbl ?s p) = filter (\<lambda>r. fld r ''comment'' \<in> M) (tbl s p)"
    unfolding sub [of "tbl ?s p"] sub [of "tbl s p"] step(2) ..
  with Cons.IH [OF step(1)] Cons.prems(2) show ?case by simp
qed simp

lemma markers_distinct:
  "natComment c = natComment c' \<longleftrightarrow> rc_Iface c = rc_Iface c'"
  "masqComment c = masqComment c' \<longleftrightarrow> rc_Iface c = rc_Iface c'"
  "natComment c \<noteq> masqComment c'" "masqComment c \<noteq> natComment c'"
  by (simp_all add: natComment_def masqComment_def natCommentPrefix_def masqCommentPrefix_def)

section \<open>An example\<close>

definition demo_cfg :: rconfig where
  "demo_cfg = \<lparr>rc_Address = ''r'', rc_APIPort = 8728, rc_APITLS = False, rc_User = ''u'',
     rc_Password = ''p'', rc_Iface = ''wg1'', rc_Interval = 1, rc_Mode = ''client''\<rparr>"

definition demo_rule :: DivertRule where
  "demo_rule = \<lparr>dr_Chain = ChainOutput, dr_SrcPort = 13231, dr_DstAddress = IP4 10 0 0 9,
     dr_DstPort = 443, dr_ToAddress = IP4 172 17 0 2, dr_ToPort = 51820\<rparr>"

text \<open>A table with a rule of another instance and two of the instance, one of them stale.\<close>

definition demo_table :: "row list" where
  "demo_table =
     [[(''.id'', ''*1''), (''comment'', ''awgproxy-divert:wg2''), (''chain'', ''output'')],
      [(''.id'', ''*2''), (''comment'', ''awgproxy-divert:wg1''), (''chain'', ''dstnat'')],
      [(''.id'', ''*3''), (''comment'', ''awgproxy-divert:wg1''), (''chain'', ''output'')]]"

definition demo_tables :: "string \<Rightarrow> row list" where
  "demo_tables p = (if p = ''/ip/firewall/nat'' then demo_table else [])"

lemma demo_tables_ok: "tables_ok (\<lambda>s. s) demo_tables"
  by (simp add: tables_ok_def demo_tables_def demo_table_def ids_distinct_def fld_def)

lemma demo_rule_valid: "validate demo_rule = None"
  by (simp add: validate_def validate_to_def demo_rule_def bad_port_def)

section \<open>Properties\<close>

text \<open>
  C9. \<open>Ensure\<close> converges in one call: on a router that executes the commands, whatever rules
  the table holds, a valid wanted rule ends up as the only rule with the instance's marker,
  with all the wanted fields; the rules of others, and every other table, are unchanged.
\<close>

theorem nat_Ensure_converges:
  assumes "table_router ros tbl" "ids_distinct (tbl s (nr_path n))" "validate want = None"
  shows "\<exists>n' s'. nat_Ensure ros n want s = (None, n', s') \<and>
    (\<exists>r. filter (nat_ours n) (tbl s' (nr_path n)) = [r] \<and> (\<forall>(k, v) \<in> set (nat_row n want). fld r k = v)) \<and>
    filter (\<lambda>r. \<not> nat_ours n r) (tbl s' (nr_path n)) = filter (\<lambda>r. \<not> nat_ours n r) (tbl s (nr_path n)) \<and>
    ids_distinct (tbl s' (nr_path n)) \<and>
    (\<forall>p. p \<noteq> nr_path n \<longrightarrow> tbl s' p = tbl s p)"
  using nat_Ensure_table [of ros tbl s n want] assms unfolding reconciled_def holds_fields_def
  by (auto simp: split_beta)

theorem nat_Ensure_converges_witness:
  "\<exists>n' s'. nat_Ensure mem_ros (NewNatReconciler demo_cfg) demo_rule demo_tables = (None, n', s') \<and>
    (\<exists>r. filter (nat_ours (NewNatReconciler demo_cfg)) (s' ''/ip/firewall/nat'') = [r] \<and>
      fld r ''dst-port'' = Itoa 443)"
proof -
  have "ids_distinct (demo_tables (nr_path (NewNatReconciler demo_cfg)))"
    using demo_tables_ok by (simp add: tables_ok_def)
  from nat_Ensure_converges [of mem_ros "\<lambda>s. s" demo_tables "NewNatReconciler demo_cfg", OF mem_router this demo_rule_valid] show ?thesis
    by (auto simp: NewNatReconciler_def nat_row_def rule_fields_def demo_rule_def ChainOutput_def)
qed

text \<open>
  C23. \<open>Ensure\<close> is idempotent: repeated on the state it left, it only lists the table, and
  every record stays as it is.
\<close>

theorem nat_Ensure_idempotent:
  assumes "table_router ros tbl" "ids_distinct (tbl s (nr_path n))"
    and "nat_Ensure ros n want s = (None, n', s')"
  shows "\<exists>n''. nat_Ensure ros n' want s' = (None, n'', snd (ros_print ros (nr_path n) s')) \<and>
    tbl (snd (ros_print ros (nr_path n) s')) = tbl s'"
proof -
  have valid: "validate want = None"
    using assms(3) by (cases "validate want") (simp_all add: nat_Ensure_def)
  from nat_Ensure_table [OF assms(1,2) valid] assms(3) obtain a r where
    n': "n' = nat_logTransition a n" and
    r: "filter (nat_ours n) (tbl s' (nr_path n)) = [r]" "holds_fields (nat_row n want) r"
    by (auto simp: reconciled_def)
  have same: "nat_ours n' = nat_ours n" "nat_row n' = nat_row n" "nr_path n' = nr_path n"
    by (simp_all add: n' nat_logTransition_def nat_ours_def [abs_def] nat_row_def [abs_def])
  obtain s1 where "ros_print ros (nr_path n) s' = (Inr (tbl s' (nr_path n)), s1)" "tbl s1 = tbl s'"
    using table_printE [OF assms(1)] .
  then show ?thesis
    using nat_Ensure_settled [OF assms(1) valid, of n' s' r] r by (simp add: same)
qed

theorem nat_Ensure_idempotent_witness:
  "\<exists>n' s'. nat_Ensure mem_ros (NewNatReconciler demo_cfg) demo_rule demo_tables = (None, n', s') \<and>
    (\<exists>n''. nat_Ensure mem_ros n' demo_rule s' = (None, n'', s'))"
proof -
  have ids: "ids_distinct (demo_tables (nr_path (NewNatReconciler demo_cfg)))"
    using demo_tables_ok by (simp add: tables_ok_def)
  obtain n' s' where 1: "nat_Ensure mem_ros (NewNatReconciler demo_cfg) demo_rule demo_tables = (None, n', s')"
    using nat_Ensure_table [of mem_ros "\<lambda>s. s" demo_tables "NewNatReconciler demo_cfg", OF mem_router ids demo_rule_valid] by auto
  from nat_Ensure_idempotent [of mem_ros "\<lambda>s. s" demo_tables "NewNatReconciler demo_cfg", OF mem_router ids 1] 1 show ?thesis by (auto simp: mem_ros_def)
qed

text \<open>
  C24. The masquerade reconciler converges too: for a valid network the table ends up with
  exactly one rule with the instance's marker, holding the wanted fields, and all other
  rules and tables are unchanged.
\<close>

theorem masq_Ensure_converges:
  assumes "table_router ros tbl" "ids_distinct (tbl s ''/ip/firewall/nat'')" "PrefixValid net"
  shows "\<exists>m' s'. masq_Ensure ros m net s = (None, m', s') \<and>
    (\<exists>r. filter (masq_ours m) (tbl s' ''/ip/firewall/nat'') = [r] \<and>
       fld r ''chain'' = ''srcnat'' \<and> fld r ''action'' = ''masquerade'' \<and>
       fld r ''src-address'' = prefix_string net \<and> fld r ''disabled'' = ''false'') \<and>
    filter (\<lambda>r. \<not> masq_ours m r) (tbl s' ''/ip/firewall/nat'') =
      filter (\<lambda>r. \<not> masq_ours m r) (tbl s ''/ip/firewall/nat'') \<and>
    (\<forall>p. p \<noteq> ''/ip/firewall/nat'' \<longrightarrow> tbl s' p = tbl s p)"
  using masq_Ensure_table [of ros tbl s net m] assms
  unfolding reconciled_def holds_fields_def masq_fields_def by auto

theorem masq_Ensure_converges_witness:
  "\<exists>m' s'. masq_Ensure mem_ros (NewMasqueradeReconciler demo_cfg) (PrefixFrom (IP4 10 7 0 0) 24) demo_tables =
      (None, m', s') \<and>
    (\<exists>r. filter (masq_ours (NewMasqueradeReconciler demo_cfg)) (s' ''/ip/firewall/nat'') = [r])"
proof -
  have "ids_distinct (demo_tables ''/ip/firewall/nat'')"
    using demo_tables_ok by (simp add: tables_ok_def)
  moreover have "PrefixValid (PrefixFrom (IP4 10 7 0 0) 24)"
    by (simp add: PrefixValid_def PrefixFrom_def addr_bits_def)
  ultimately show ?thesis
    using masq_Ensure_converges [of mem_ros "\<lambda>s. s" demo_tables] mem_router by blast
qed

text \<open>
  C10. Instances do not interfere: any sequence of operations of reconcilers of other
  WireGuard interfaces, on one router and in any order, leaves the divert and masquerade
  rules of an interface as they were in every table.
\<close>

theorem instances_do_not_interfere:
  assumes "table_router ros tbl" "tables_ok tbl s" "\<forall>op \<in> set ops. op_iface op \<noteq> rc_Iface c"
  shows "filter (\<lambda>r. fld r ''comment'' \<in> {natComment c, masqComment c}) (tbl (foldl (exec_rule_op ros) s ops) p) =
    filter (\<lambda>r. fld r ''comment'' \<in> {natComment c, masqComment c}) (tbl s p)"
proof -
  have "op_marker op \<notin> {natComment c, masqComment c}" if "op \<in> set ops" for op
    using assms(3) that by (cases op) (auto simp: markers_distinct)
  then show ?thesis using run_rule_ops_frame [OF assms(1,2)] by blast
qed

theorem instances_do_not_interfere_witness:
  "filter (\<lambda>r. fld r ''comment'' \<in> {natComment (demo_cfg\<lparr>rc_Iface := ''wg2''\<rparr>), masqComment (demo_cfg\<lparr>rc_Iface := ''wg2''\<rparr>)})
     (foldl (exec_rule_op mem_ros) demo_tables
       [EnsureDivert (NewNatReconciler demo_cfg) demo_rule, RemoveDivert (NewNatReconciler demo_cfg)] ''/ip/firewall/nat'') =
   [[(''.id'', ''*1''), (''comment'', ''awgproxy-divert:wg2''), (''chain'', ''output'')]]"
  by (subst instances_do_not_interfere [OF mem_router demo_tables_ok])
    (simp_all add: NewNatReconciler_def demo_cfg_def demo_tables_def demo_table_def
      natComment_def masqComment_def natCommentPrefix_def masqCommentPrefix_def fld_def)

end
