(* ===== verification/Divert_Hooks.thy ===== *)
theory Divert_Hooks
  imports Router_Nat Router_Poller Router_Peers Config
begin

text \<open>
  Command \<open>awgproxy\<close> (\<open>main.go\<close>): how the NAT reconcilers are driven. Every successful poll
  calls the hooks of the configuration: the divert rule of the mode and the masquerade rule;
  rules of options that are off are removed at start, and those of a former interface when
  it changes. A closure is a record of the variables it captures.
\<close>

definition buildRouterConfig :: "Config \<Rightarrow> rconfig" where
  "buildRouterConfig c =
     (let r = c_Router c in
      \<lparr>rc_Address = rn_Address r, rc_APIPort = rn_APIPort r, rc_APITLS = rn_APITLS r,
       rc_User = rn_User r, rc_Password = rn_Password r, rc_Iface = rn_WGIface r,
       rc_Interval = c_PollInterval c, rc_Mode = c_Mode c\<rparr>)"

definition portFromEndpoint :: "string \<Rightarrow> int option" where
  "portFromEndpoint ep =
     (case SplitHostPort ep of
        None \<Rightarrow> None
      | Some (_, port) \<Rightarrow> (case Atoi port of (n, ok) \<Rightarrow> if ok then Some n else None))"

definition portFromListen :: "string \<Rightarrow> int option" where
  "portFromListen listen =
     (case SplitHostPort listen of
        None \<Rightarrow> None
      | Some (_, port) \<Rightarrow> (case Atoi port of (n, ok) \<Rightarrow> if ok then Some n else None))"

section \<open>Client mode\<close>

record ClientHook =
  ch_rec :: NatReconciler
  ch_rec6 :: NatReconciler
  ch_addr :: ipaddr
  ch_addr6 :: ipaddr
  ch_toPort :: int
  ch_warned6 :: bool
  ch_lastIs6 :: "bool option"

definition makeClientDivertHook :: "rconfig \<Rightarrow> Config \<Rightarrow> ClientHook option" where
  "makeClientDivertHook rcfg cfg =
     (case ParseAddr (c_ContainerAddr cfg) of
        None \<Rightarrow> None
      | Some a \<Rightarrow>
          (case portFromListen (c_Listen cfg) of
             None \<Rightarrow> None
           | Some p \<Rightarrow>
               Some \<lparr>ch_rec = NewNatReconciler rcfg, ch_rec6 = NewNatReconciler6 rcfg, ch_addr = a,
                 ch_addr6 = ParseAddr0 (c_ContainerAddr6 cfg), ch_toPort = p, ch_warned6 = False,
                 ch_lastIs6 = None\<rparr>))"

text \<open>The reconciler of a family in a hook.\<close>

definition rec_of :: "bool \<Rightarrow> ClientHook \<Rightarrow> NatReconciler" where
  "rec_of is6 h = (if is6 then ch_rec6 h else ch_rec h)"

definition put_rec :: "bool \<Rightarrow> NatReconciler \<Rightarrow> ClientHook \<Rightarrow> ClientHook" where
  "put_rec is6 n h = (if is6 then h\<lparr>ch_rec6 := n\<rparr> else h\<lparr>ch_rec := n\<rparr>)"

definition hook_Remove :: "'s ros \<Rightarrow> bool \<Rightarrow> ClientHook \<Rightarrow> 's \<Rightarrow> gerror option \<times> ClientHook \<times> 's" where
  "hook_Remove ros is6 h s =
     (case nat_Remove ros (rec_of is6 h) s of (e, n, s) \<Rightarrow> (e, put_rec is6 n h, s))"

definition to_addr :: "ClientHook \<Rightarrow> bool \<Rightarrow> ipaddr" where
  "to_addr h is6 = (if is6 then ch_addr6 h else ch_addr h)"

definition client_rule :: "ClientHook \<Rightarrow> Snapshot \<Rightarrow> ipaddr \<Rightarrow> addrport \<Rightarrow> DivertRule" where
  "client_rule h snap dst remote =
     \<lparr>dr_Chain = ChainOutput, dr_SrcPort = sn_WGListenPort snap, dr_DstAddress = dst,
      dr_DstPort = int (ap_port remote),
      dr_ToAddress = to_addr h (Is6 dst), dr_ToPort = ch_toPort h\<rparr>"

definition hook_upstream :: "Snapshot \<Rightarrow> Upstream option" where
  "hook_upstream snap = (if sn_WGListenPort snap = 0 then None else sn_Upstream snap)"

text \<open>The family that is not the upstream's is cleaned once.\<close>

definition clean_idle :: "'s ros \<Rightarrow> bool \<Rightarrow> ClientHook \<Rightarrow> 's \<Rightarrow> ClientHook \<times> 's" where
  "clean_idle ros is6 h s =
     (if ch_lastIs6 h \<noteq> Some is6
      then (case hook_Remove ros (\<not> is6) h s of
          (Some _, h, s) \<Rightarrow> (h, s)
        | (None, h, s) \<Rightarrow> (h\<lparr>ch_lastIs6 := Some is6\<rparr>, s))
      else (h, s))"

definition apply_rule :: "'s ros \<Rightarrow> Snapshot \<Rightarrow> addrport \<Rightarrow> ipaddr \<Rightarrow> ClientHook \<Rightarrow> 's \<Rightarrow> ClientHook \<times> 's" where
  "apply_rule ros snap remote dst h s =
     (if \<not> IsValid (to_addr h (Is6 dst))
      then (case hook_Remove ros (Is6 dst) (h\<lparr>ch_warned6 := True\<rparr>) s of (_, h, s) \<Rightarrow> (h, s))
      else
        (let h = h\<lparr>ch_warned6 := False\<rparr> in
         case nat_Ensure ros (rec_of (Is6 dst) h) (client_rule h snap dst remote) s of
           (_, n, s) \<Rightarrow> (put_rec (Is6 dst) n h, s)))"

definition client_hook :: "'s ros \<Rightarrow> Snapshot \<Rightarrow> ClientHook \<Rightarrow> 's \<Rightarrow> ClientHook \<times> 's" where
  "client_hook ros snap h s =
     (case hook_upstream snap of
        None \<Rightarrow>
          (case hook_Remove ros False h s of (_, h, s) \<Rightarrow>
          (case hook_Remove ros True h s of (_, h, s) \<Rightarrow> (h\<lparr>ch_lastIs6 := None\<rparr>, s)))
      | Some u \<Rightarrow>
          (let dst = Unmap (ap_addr (up_RemoteAddr u));
               (h, s) = clean_idle ros (Is6 dst) h s
           in apply_rule ros snap (up_RemoteAddr u) dst h s))"

section \<open>Server mode\<close>

record ServerHook =
  sh_rec :: NatReconciler
  sh_rec6 :: NatReconciler
  sh_want :: DivertRule
  sh_want6 :: DivertRule
  sh_cleaned6 :: bool

definition makeServerDivertHook :: "rconfig \<Rightarrow> Config \<Rightarrow> ServerHook option" where
  "makeServerDivertHook rcfg cfg =
     (case ParseAddr (c_ContainerAddr cfg) of
        None \<Rightarrow> None
      | Some a \<Rightarrow>
          (case portFromListen (c_Listen cfg) of
             None \<Rightarrow> None
           | Some toPort \<Rightarrow>
               (let dstPort = (if c_PublicEndpoint cfg \<noteq> [] then
                      (case portFromEndpoint (c_PublicEndpoint cfg) of Some p \<Rightarrow> p | None \<Rightarrow> toPort)
                      else toPort);
                    want = \<lparr>dr_Chain = ChainDstNat, dr_SrcPort = 0, dr_DstAddress = IPNone,
                      dr_DstPort = dstPort, dr_ToAddress = a, dr_ToPort = toPort\<rparr>
                in Some \<lparr>sh_rec = NewNatReconciler rcfg, sh_rec6 = NewNatReconciler6 rcfg, sh_want = want,
                     sh_want6 = want\<lparr>dr_ToAddress := ParseAddr0 (c_ContainerAddr6 cfg)\<rparr>, sh_cleaned6 = False\<rparr>)))"

definition server_hook :: "'s ros \<Rightarrow> Snapshot \<Rightarrow> ServerHook \<Rightarrow> 's \<Rightarrow> ServerHook \<times> 's" where
  "server_hook ros snap h s =
     (case nat_Ensure ros (sh_rec h) (sh_want h) s of (_, n, s) \<Rightarrow>
     (let h = h\<lparr>sh_rec := n\<rparr> in
      if IsValid (dr_ToAddress (sh_want6 h))
      then (case nat_Ensure ros (sh_rec6 h) (sh_want6 h) s of (_, n, s) \<Rightarrow> (h\<lparr>sh_rec6 := n\<rparr>, s))
      else if \<not> sh_cleaned6 h
      then (case nat_Remove ros (sh_rec6 h) s of
          (Some _, n, s) \<Rightarrow> (h\<lparr>sh_rec6 := n\<rparr>, s)
        | (None, n, s) \<Rightarrow> (h\<lparr>sh_rec6 := n, sh_cleaned6 := True\<rparr>, s))
      else (h, s)))"

section \<open>Masquerade\<close>

text \<open>The hook's only variable that changes is its reconciler.\<close>

definition masq_hook :: "'s ros \<Rightarrow> rconfig \<Rightarrow> Snapshot \<Rightarrow> MasqueradeReconciler \<Rightarrow> 's \<Rightarrow> MasqueradeReconciler \<times> 's" where
  "masq_hook ros rcfg snap m s =
     (case ListInterfaces ros s of
        (Inl e, s) \<Rightarrow> (m, s)
      | (Inr ifs, s) \<Rightarrow>
     (let addr = (case find (\<lambda>it. if_Name it = rc_Iface rcfg) ifs of None \<Rightarrow> [] | Some it \<Rightarrow> if_Address it)
      in if addr = [] then (m, s)
         else (case ParsePrefix addr of
             None \<Rightarrow> (m, s)
           | Some p \<Rightarrow> (case masq_Ensure ros m (Masked p) s of (_, m, s) \<Rightarrow> (m, s)))))"

section \<open>Start of the stack\<close>

text \<open>What a goroutine that cleans up has still to do: a configuration and the removals. One removal
  (\<open>Remove\<close> of one reconciler) is one step; a failed one is only logged.\<close>

datatype sweep = Sweep4 | Sweep6 | SweepMasq

type_synonym cleanup = "rconfig \<times> sweep list"

definition sweep :: "'s ros \<Rightarrow> rconfig \<Rightarrow> sweep \<Rightarrow> 's \<Rightarrow> 's" where
  "sweep ros rcfg x s =
     (case x of
        Sweep4 \<Rightarrow> snd (snd (nat_Remove ros (NewNatReconciler rcfg) s))
      | Sweep6 \<Rightarrow> snd (snd (nat_Remove ros (NewNatReconciler6 rcfg) s))
      | SweepMasq \<Rightarrow> snd (snd (masq_Remove ros (NewMasqueradeReconciler rcfg) s)))"

definition cleanupDivert :: "rconfig \<Rightarrow> cleanup" where
  "cleanupDivert rcfg = (rcfg, [Sweep4, Sweep6])"

definition cleanupMasquerade :: "rconfig \<Rightarrow> cleanup" where
  "cleanupMasquerade rcfg = (rcfg, [SweepMasq])"

text \<open>The goroutines \<open>cleanupStaleRules\<close> starts.\<close>

definition cleanupStaleRules :: "rconfig option \<Rightarrow> rconfig \<Rightarrow> cleanup list" where
  "cleanupStaleRules prev nxt =
     (case prev of
        None \<Rightarrow> []
      | Some prev \<Rightarrow>
          if rc_Iface prev = [] \<or> rc_Iface prev = rc_Iface nxt then []
          else if rc_Address prev = [] \<or> rc_Password prev = [] then []
          else [cleanupDivert prev, cleanupMasquerade prev])"

record Hooks =
  hk_client :: "ClientHook option"
  hk_server :: "ServerHook option"
  hk_masq :: "MasqueradeReconciler option"

text \<open>The hooks of a configuration and the goroutines that remove the rules of what is off.\<close>

definition startHooks :: "Config \<Rightarrow> rconfig \<Rightarrow> Hooks \<times> cleanup list" where
  "startHooks cfg rcfg =
     (let addr = rn_Address (c_Router cfg);
          masq = c_Masquerade cfg \<and> c_Mode cfg = ModeServer \<and> addr \<noteq> []
      in (\<lparr>hk_client = (if c_Divert cfg \<and> c_Mode cfg = ModeClient then makeClientDivertHook rcfg cfg else None),
           hk_server = (if c_Divert cfg \<and> c_Mode cfg = ModeServer then makeServerDivertHook rcfg cfg else None),
           hk_masq = (if masq then Some (NewMasqueradeReconciler rcfg) else None)\<rparr>,
          (if \<not> c_Divert cfg \<and> addr \<noteq> [] then [cleanupDivert rcfg] else []) @
          (if \<not> masq \<and> addr \<noteq> [] then [cleanupMasquerade rcfg] else [])))"

definition run_hook :: "('h \<Rightarrow> 's \<Rightarrow> 'h \<times> 's) \<Rightarrow> 'h option \<Rightarrow> 's \<Rightarrow> 'h option \<times> 's" where
  "run_hook f h s = (case h of None \<Rightarrow> (None, s) | Some h \<Rightarrow> (case f h s of (h, s) \<Rightarrow> (Some h, s)))"

text \<open>\<open>onTick\<close>: the hooks in the order they were added.\<close>

definition onTick :: "'s ros \<Rightarrow> rconfig \<Rightarrow> Snapshot \<Rightarrow> Hooks \<Rightarrow> 's \<Rightarrow> Hooks \<times> 's" where
  "onTick ros rcfg snap hk s =
     (let (c, s) = run_hook (client_hook ros snap) (hk_client hk) s;
          (v, s) = run_hook (server_hook ros snap) (hk_server hk) s;
          (m, s) = run_hook (masq_hook ros rcfg snap) (hk_masq hk) s
      in (\<lparr>hk_client = c, hk_server = v, hk_masq = m\<rparr>, s))"

section \<open>The client hook on a table\<close>

definition path_of :: "bool \<Rightarrow> string" where
  "path_of is6 = (if is6 then ''/ipv6/firewall/nat'' else ''/ip/firewall/nat'')"

definition ours :: "rconfig \<Rightarrow> row \<Rightarrow> bool" where
  "ours c r \<longleftrightarrow> fld r ''comment'' = natComment c"

text \<open>The reconcilers of a hook are those of the interface; what it was made with stays.\<close>

definition wf_hook :: "rconfig \<Rightarrow> ClientHook \<Rightarrow> bool" where
  "wf_hook c h \<longleftrightarrow> (\<forall>b. nr_cfg (rec_of b h) = c \<and> nr_path (rec_of b h) = path_of b)"

definition same_setup :: "ClientHook \<Rightarrow> ClientHook \<Rightarrow> bool" where
  "same_setup h h' \<longleftrightarrow> ch_addr h' = ch_addr h \<and> ch_addr6 h' = ch_addr6 h \<and> ch_toPort h' = ch_toPort h"

text \<open>The rules of others, and all other tables, are kept.\<close>

definition others_kept :: "('s \<Rightarrow> string \<Rightarrow> row list) \<Rightarrow> rconfig \<Rightarrow> 's \<Rightarrow> 's \<Rightarrow> bool" where
  "others_kept tbl c s s' \<longleftrightarrow>
     (\<forall>p. filter (\<lambda>r. \<not> ours c r) (tbl s' p) = filter (\<lambda>r. \<not> ours c r) (tbl s p))"

text \<open>The family recorded as cleaned is clean.\<close>

definition idle_clean :: "('s \<Rightarrow> string \<Rightarrow> row list) \<Rightarrow> rconfig \<Rightarrow> ClientHook \<Rightarrow> 's \<Rightarrow> bool" where
  "idle_clean tbl c h s \<longleftrightarrow>
     (case ch_lastIs6 h of None \<Rightarrow> True | Some b \<Rightarrow> filter (ours c) (tbl s (path_of (\<not> b))) = [])"

lemma nat_ours_ours: "nr_cfg n = c \<Longrightarrow> nat_ours n = ours c"
  by (auto simp: nat_ours_def ours_def)

lemma path_of_eq [simp]: "path_of a = path_of b \<longleftrightarrow> a = b"
  by (simp add: path_of_def)

lemma rec_of_simps [simp]:
  "rec_of b (put_rec b' n h) = (if b = b' then n else rec_of b h)"
  "rec_of b (h\<lparr>ch_lastIs6 := x\<rparr>) = rec_of b h" "rec_of b (h\<lparr>ch_warned6 := y\<rparr>) = rec_of b h"
  "ch_lastIs6 (put_rec b n h) = ch_lastIs6 h" "ch_addr (put_rec b n h) = ch_addr h"
  "ch_addr6 (put_rec b n h) = ch_addr6 h" "ch_toPort (put_rec b n h) = ch_toPort h"
  by (auto simp: rec_of_def put_rec_def)

lemma wf_hook_simps [simp]:
  "wf_hook c (h\<lparr>ch_lastIs6 := x\<rparr>) = wf_hook c h" "wf_hook c (h\<lparr>ch_warned6 := y\<rparr>) = wf_hook c h"
  by (simp_all add: wf_hook_def)

lemma same_setup_simps [simp]:
  "same_setup h (h'\<lparr>ch_lastIs6 := x\<rparr>) = same_setup h h'"
  "same_setup h (h'\<lparr>ch_warned6 := y\<rparr>) = same_setup h h'" "same_setup h h"
  "same_setup (h\<lparr>ch_warned6 := y\<rparr>) h' = same_setup h h'"
  by (simp_all add: same_setup_def)

lemma same_setup_trans: "same_setup a b \<Longrightarrow> same_setup b c \<Longrightarrow> same_setup a c"
  by (simp add: same_setup_def)

lemma others_kept_trans: "others_kept tbl c s s' \<Longrightarrow> others_kept tbl c s' s'' \<Longrightarrow> others_kept tbl c s s''"
  by (simp add: others_kept_def)

text \<open>A reconciler of the interface on a table.\<close>

lemma rec_Remove_table:
  assumes ros: "table_router ros tbl" and ok: "tables_ok tbl s" and n: "nr_cfg n = c" "nr_path n = path_of b"
  shows "\<exists>n' s'. nat_Remove ros n s = (None, n', s') \<and> nr_cfg n' = c \<and> nr_path n' = path_of b \<and>
    tables_ok tbl s' \<and> others_kept tbl c s s' \<and> filter (ours c) (tbl s' (path_of b)) = [] \<and>
    (\<forall>p. p \<noteq> path_of b \<longrightarrow> tbl s' p = tbl s p)"
proof -
  obtain n' s' where r: "nat_Remove ros n s = (None, n', s')" "nr_cfg n' = c" "nr_path n' = path_of b"
    "tbl s' = (tbl s)(path_of b := filter (\<lambda>r. \<not> ours c r) (tbl s (path_of b)))"
    using nat_Remove_table [OF ros, of s n] ok n by (auto simp: tables_ok_def nat_ours_ours)
  moreover have "tables_ok tbl s'" "others_kept tbl c s s'" "filter (ours c) (tbl s' (path_of b)) = []"
    using ok by (simp_all add: r tables_ok_def ids_distinct_filter others_kept_def)
  ultimately show ?thesis by simp
qed

lemma rec_Ensure_table:
  assumes ros: "table_router ros tbl" and ok: "tables_ok tbl s" and n: "nr_cfg n = c" "nr_path n = path_of b"
  shows "\<exists>e n' s'. nat_Ensure ros n want s = (e, n', s') \<and> nr_cfg n' = c \<and> nr_path n' = path_of b \<and>
    tables_ok tbl s' \<and> others_kept tbl c s s' \<and> (\<forall>p. p \<noteq> path_of b \<longrightarrow> tbl s' p = tbl s p) \<and>
    (Router_Nat.validate want = None \<longrightarrow>
      (\<exists>r. filter (ours c) (tbl s' (path_of b)) = [r] \<and> holds_fields (nat_row n want) r))"
proof (cases "Router_Nat.validate want")
  case (Some e)
  then show ?thesis using ok n by (auto simp: nat_Ensure_def others_kept_def)
next
  case None
  obtain a s' where e: "nat_Ensure ros n want s = (None, nat_logTransition a n, s')"
    "reconciled (ours c) (nat_row n want) (tbl s (path_of b)) (tbl s' (path_of b))"
    "\<forall>p. p \<noteq> path_of b \<longrightarrow> tbl s' p = tbl s p"
    using nat_Ensure_table [OF ros, of s n want] ok None n by (auto simp: tables_ok_def nat_ours_ours)
  have "tables_ok tbl s' \<and> others_kept tbl c s s'"
    using reconciled_frame [OF ok e(2,3) refl, of "natComment c"] by (simp add: ours_def others_kept_def)
  then show ?thesis using e n by (auto simp: reconciled_def nat_logTransition_def)
qed

lemma hook_Remove_table:
  assumes ros: "table_router ros tbl" and ok: "tables_ok tbl s" and h: "wf_hook c h"
  shows "\<exists>h' s'. hook_Remove ros b h s = (None, h', s') \<and> wf_hook c h' \<and> same_setup h h' \<and>
    ch_lastIs6 h' = ch_lastIs6 h \<and> tables_ok tbl s' \<and> others_kept tbl c s s' \<and>
    filter (ours c) (tbl s' (path_of b)) = [] \<and>
    (\<forall>p. p \<noteq> path_of b \<longrightarrow> tbl s' p = tbl s p)"
proof -
  have n: "nr_cfg (rec_of b h) = c" "nr_path (rec_of b h) = path_of b" using h by (simp_all add: wf_hook_def)
  obtain n' s' where r: "nat_Remove ros (rec_of b h) s = (None, n', s')" "nr_cfg n' = c" "nr_path n' = path_of b"
    "tables_ok tbl s'" "others_kept tbl c s s'" "filter (ours c) (tbl s' (path_of b)) = []"
    "\<forall>p. p \<noteq> path_of b \<longrightarrow> tbl s' p = tbl s p"
    using rec_Remove_table [OF ros ok n] by blast
  moreover have "wf_hook c (put_rec b n' h)" "same_setup h (put_rec b n' h)"
    using h r(2,3) by (auto simp: wf_hook_def same_setup_def)
  ultimately show ?thesis by (simp add: hook_Remove_def)
qed

lemma hook_Ensure_table:
  assumes ros: "table_router ros tbl" and ok: "tables_ok tbl s" and h: "wf_hook c h"
  shows "\<exists>e n' s'. nat_Ensure ros (rec_of b h) want s = (e, n', s') \<and> wf_hook c (put_rec b n' h) \<and>
    tables_ok tbl s' \<and> others_kept tbl c s s' \<and> (\<forall>p. p \<noteq> path_of b \<longrightarrow> tbl s' p = tbl s p) \<and>
    (Router_Nat.validate want = None \<longrightarrow>
      (\<exists>r. filter (ours c) (tbl s' (path_of b)) = [r] \<and> holds_fields (nat_row (rec_of b h) want) r))"
proof -
  have n: "nr_cfg (rec_of b h) = c" "nr_path (rec_of b h) = path_of b" using h by (simp_all add: wf_hook_def)
  obtain e n' s' where r: "nat_Ensure ros (rec_of b h) want s = (e, n', s')" "nr_cfg n' = c" "nr_path n' = path_of b"
    "tables_ok tbl s'" "others_kept tbl c s s'" "\<forall>p. p \<noteq> path_of b \<longrightarrow> tbl s' p = tbl s p"
    "Router_Nat.validate want = None \<longrightarrow>
      (\<exists>r. filter (ours c) (tbl s' (path_of b)) = [r] \<and> holds_fields (nat_row (rec_of b h) want) r)"
    using rec_Ensure_table [OF ros ok n, of want] by (elim exE conjE)
  have "wf_hook c (put_rec b n' h)" using h r(2,3) by (auto simp: wf_hook_def)
  with r(1,4-7) show ?thesis by (intro exI [of _ e] exI [of _ n'] exI [of _ s']) (intro conjI)
qed

text \<open>What a run of the hook leaves for a snapshot: the divert rule in the table of the
  upstream's family and none in the other; none at all without an upstream, without a listen
  port, or without a container address of the family.\<close>

definition diverted :: "('s \<Rightarrow> string \<Rightarrow> row list) \<Rightarrow> rconfig \<Rightarrow> ClientHook \<Rightarrow> Snapshot \<Rightarrow> 's \<Rightarrow> bool" where
  "diverted tbl c h snap s =
     (case hook_upstream snap of
        None \<Rightarrow> \<forall>b. filter (ours c) (tbl s (path_of b)) = []
      | Some u \<Rightarrow>
          (let dst = Unmap (ap_addr (up_RemoteAddr u)); b = Is6 dst;
               want = client_rule h snap dst (up_RemoteAddr u)
           in filter (ours c) (tbl s (path_of (\<not> b))) = [] \<and>
              (if \<not> IsValid (to_addr h b) then filter (ours c) (tbl s (path_of b)) = []
               else Router_Nat.validate want = None \<longrightarrow>
                 (\<exists>r. filter (ours c) (tbl s (path_of b)) = [r] \<and>
                   holds_fields (AList.update ''comment'' (natComment c) (rule_fields want)) r))))"

text \<open>The first half of the hook: the family that is not the upstream's is cleaned, unless it
  is known to be clean.\<close>

lemma clean_idle:
  assumes ros: "table_router ros tbl" and ok: "tables_ok tbl s" and h: "wf_hook c h"
    and idle: "idle_clean tbl c h s"
  shows "\<exists>h' s'. clean_idle ros b h s = (h', s') \<and>
    wf_hook c h' \<and> same_setup h h' \<and> ch_lastIs6 h' = Some b \<and> tables_ok tbl s' \<and>
    others_kept tbl c s s' \<and> filter (ours c) (tbl s' (path_of (\<not> b))) = []"
proof (cases "ch_lastIs6 h = Some b")
  case True
  with ok h idle show ?thesis by (simp add: clean_idle_def idle_clean_def others_kept_def)
next
  case False
  with hook_Remove_table [OF ros ok h, of "\<not> b"] show ?thesis by (fastforce simp: clean_idle_def)
qed

lemma client_hook_None:
  assumes ros: "table_router ros tbl" and ok: "tables_ok tbl s" and h: "wf_hook c h"
    and up: "hook_upstream snap = None"
  shows "\<exists>h' s'. client_hook ros snap h s = (h', s') \<and> wf_hook c h' \<and> same_setup h h' \<and>
    idle_clean tbl c h' s' \<and> tables_ok tbl s' \<and> others_kept tbl c s s' \<and> diverted tbl c h snap s'"
proof -
  obtain h1 s1 where 1: "hook_Remove ros False h s = (None, h1, s1)" "wf_hook c h1" "same_setup h h1"
    "tables_ok tbl s1" "others_kept tbl c s s1" "filter (ours c) (tbl s1 (path_of False)) = []"
    using hook_Remove_table [OF ros ok h, of False] by blast
  obtain h2 s2 where 2: "hook_Remove ros True h1 s1 = (None, h2, s2)" "wf_hook c h2" "same_setup h1 h2"
    "tables_ok tbl s2" "others_kept tbl c s1 s2" "filter (ours c) (tbl s2 (path_of True)) = []"
    "\<forall>p. p \<noteq> path_of True \<longrightarrow> tbl s2 p = tbl s1 p"
    using hook_Remove_table [OF ros 1(4,2), of True] by blast
  have "\<forall>b. filter (ours c) (tbl s2 (path_of b)) = []"
    using 1(6) 2(6,7) by (simp add: all_bool_eq)
  moreover have "client_hook ros snap h s = (h2\<lparr>ch_lastIs6 := None\<rparr>, s2)"
    using up by (simp add: client_hook_def 1(1) 2(1))
  ultimately show ?thesis
    using 2 up same_setup_trans [OF 1(3) 2(3)] others_kept_trans [OF 1(5) 2(5)]
    by (simp add: idle_clean_def diverted_def)
qed

lemma client_rule_setup: "same_setup h h' \<Longrightarrow> client_rule h' snap dst r = client_rule h snap dst r"
  by (simp add: same_setup_def client_rule_def to_addr_def)

lemma client_hook_Some:
  assumes ros: "table_router ros tbl" and ok: "tables_ok tbl s" and h: "wf_hook c h"
    and idle: "idle_clean tbl c h s" and up: "hook_upstream snap = Some u"
  shows "\<exists>h' s'. client_hook ros snap h s = (h', s') \<and> wf_hook c h' \<and> same_setup h h' \<and>
    idle_clean tbl c h' s' \<and> tables_ok tbl s' \<and> others_kept tbl c s s' \<and> diverted tbl c h snap s'"
proof -
  define dst where "dst = Unmap (ap_addr (up_RemoteAddr u))"
  define b where "b = Is6 dst"
  define want where "want = client_rule h snap dst (up_RemoteAddr u)"
  from clean_idle [OF ros ok h idle, of b] obtain h1 s1 where
    A: "clean_idle ros b h s = (h1, s1)" and
    1: "wf_hook c h1" "same_setup h h1" "ch_lastIs6 h1 = Some b" "tables_ok tbl s1"
      "others_kept tbl c s s1" "filter (ours c) (tbl s1 (path_of (\<not> b))) = []" by blast
  have to: "to_addr h1 b = to_addr h b"
    using 1(2) by (simp add: same_setup_def to_addr_def)
  have rule: "client_rule (h1\<lparr>ch_warned6 := False\<rparr>) snap dst (up_RemoteAddr u) = want"
    using client_rule_setup [of h "h1\<lparr>ch_warned6 := False\<rparr>"] 1(2) by (simp add: want_def)
  have hook: "client_hook ros snap h s =
      (if \<not> IsValid (to_addr h b)
       then (case hook_Remove ros b (h1\<lparr>ch_warned6 := True\<rparr>) s1 of (_, h, s) \<Rightarrow> (h, s))
       else (case nat_Ensure ros (rec_of b (h1\<lparr>ch_warned6 := False\<rparr>)) want s1 of
           (_, n, s) \<Rightarrow> (put_rec b n (h1\<lparr>ch_warned6 := False\<rparr>), s)))"
    unfolding client_hook_def up Let_def option.case dst_def [symmetric] b_def [symmetric] A prod.case
      apply_rule_def to rule ..
  have div: "diverted tbl c h snap s' \<longleftrightarrow> filter (ours c) (tbl s' (path_of (\<not> b))) = [] \<and>
      (if \<not> IsValid (to_addr h b) then filter (ours c) (tbl s' (path_of b)) = []
       else Router_Nat.validate want = None \<longrightarrow> (\<exists>r. filter (ours c) (tbl s' (path_of b)) = [r] \<and>
         holds_fields (AList.update ''comment'' (natComment c) (rule_fields want)) r))" for s'
    by (simp add: diverted_def up Let_def want_def flip: dst_def b_def)
  show ?thesis
  proof (cases "IsValid (to_addr h b)")
    case False
    obtain h2 s2 where 2: "hook_Remove ros b (h1\<lparr>ch_warned6 := True\<rparr>) s1 = (None, h2, s2)" "wf_hook c h2"
      "same_setup h1 h2" "ch_lastIs6 h2 = Some b" "tables_ok tbl s2" "others_kept tbl c s1 s2"
      "filter (ours c) (tbl s2 (path_of b)) = []" "\<forall>p. p \<noteq> path_of b \<longrightarrow> tbl s2 p = tbl s1 p"
      using hook_Remove_table [OF ros 1(4), of c "h1\<lparr>ch_warned6 := True\<rparr>" b] 1(1,3) by auto
    have clean: "filter (ours c) (tbl s2 (path_of (\<not> b))) = []" using 1(6) 2(8) by simp
    show ?thesis
      using hook False 2 clean same_setup_trans [OF 1(2) 2(3)] others_kept_trans [OF 1(5) 2(6)]
      by (simp add: idle_clean_def div)
  next
    case True
    obtain e n s2 where 2: "nat_Ensure ros (rec_of b (h1\<lparr>ch_warned6 := False\<rparr>)) want s1 = (e, n, s2)"
      "wf_hook c (put_rec b n (h1\<lparr>ch_warned6 := False\<rparr>))" "tables_ok tbl s2" "others_kept tbl c s1 s2"
      "\<forall>p. p \<noteq> path_of b \<longrightarrow> tbl s2 p = tbl s1 p"
      "Router_Nat.validate want = None \<longrightarrow> (\<exists>r. filter (ours c) (tbl s2 (path_of b)) = [r] \<and>
         holds_fields (nat_row (rec_of b (h1\<lparr>ch_warned6 := False\<rparr>)) want) r)"
      using hook_Ensure_table [OF ros 1(4), of c "h1\<lparr>ch_warned6 := False\<rparr>" b want] 1(1) by auto
    have clean: "filter (ours c) (tbl s2 (path_of (\<not> b))) = []" using 1(6) 2(5) by simp
    have row: "nat_row (rec_of b h1) want =
        AList.update ''comment'' (natComment c) (rule_fields want)"
      using 1(1) by (simp add: nat_row_def wf_hook_def)
    have "same_setup h (put_rec b n (h1\<lparr>ch_warned6 := False\<rparr>))"
      using 1(2) by (simp add: same_setup_def)
    then show ?thesis
      using hook True 2 clean others_kept_trans [OF 1(5) 2(4)] 1(3)
      by (simp add: idle_clean_def div row)
  qed
qed


lemma client_hook_step:
  assumes "table_router ros tbl" "tables_ok tbl s" "wf_hook c h" "idle_clean tbl c h s"
  shows "\<exists>h' s'. client_hook ros snap h s = (h', s') \<and> wf_hook c h' \<and> same_setup h h' \<and>
    idle_clean tbl c h' s' \<and> tables_ok tbl s' \<and> others_kept tbl c s s' \<and> diverted tbl c h snap s'"
  using client_hook_None [OF assms(1-3)] client_hook_Some [OF assms] by (cases "hook_upstream snap") blast+

lemma makeClientDivertHook_wf:
  "makeClientDivertHook c cfg = Some h \<Longrightarrow> wf_hook c h \<and> ch_lastIs6 h = None"
  by (auto simp: makeClientDivertHook_def wf_hook_def rec_of_def path_of_def NewNatReconciler_def
      NewNatReconciler6_def split: option.splits)

lemma diverted_setup:
  assumes "same_setup h h'"
  shows "diverted tbl c h' snap s = diverted tbl c h snap s"
proof -
  have "client_rule h' = client_rule h" by (intro ext) (rule client_rule_setup [OF assms])
  moreover have "to_addr h' = to_addr h" using assms by (auto simp: same_setup_def to_addr_def)
  ultimately show ?thesis by (simp only: diverted_def)
qed

end
