(* ===== verification/Stack_Rules.thy ===== *)
theory Stack_Rules
  imports Divert_Hooks
begin

text \<open>
  The firewall rules a stack is responsible for, on a router that executes the commands: what
  one clean-up removes, which rules a poll can touch, and what it leaves for the snapshot it
  read. \<open>rules_of tbl c x s\<close> are the rules the removal \<open>x\<close> of a configuration \<open>c\<close> is about.
\<close>

section \<open>Rules and their markers\<close>

definition sweep_path :: "sweep \<Rightarrow> string" where
  "sweep_path x = path_of (x = Sweep6)"

definition mark :: "rconfig \<Rightarrow> sweep \<Rightarrow> string" where
  "mark c x = (if x = SweepMasq then masqComment c else natComment c)"

definition rules_of :: "('s \<Rightarrow> string \<Rightarrow> row list) \<Rightarrow> rconfig \<Rightarrow> sweep \<Rightarrow> 's \<Rightarrow> row list" where
  "rules_of tbl c x s = filter (\<lambda>r. fld r ''comment'' = mark c x) (tbl s (sweep_path x))"

lemma mark_eq: "mark c x = mark c' y \<longleftrightarrow> rc_Iface c = rc_Iface c' \<and> (x = SweepMasq \<longleftrightarrow> y = SweepMasq)"
  by (simp add: mark_def markers_distinct)

lemma sweep_path_eq: "sweep_path x = sweep_path y \<longleftrightarrow> (x = Sweep6 \<longleftrightarrow> y = Sweep6)"
  by (simp add: sweep_path_def)

lemma ours_mark: "ours c r \<longleftrightarrow> fld r ''comment'' = mark c (if b then Sweep6 else Sweep4)"
  by (simp add: ours_def mark_def)

lemma rules_of_ours: "filter (ours c) (tbl s (path_of b)) = rules_of tbl c (if b then Sweep6 else Sweep4) s"
  by (simp add: rules_of_def sweep_path_def ours_def [abs_def] mark_def)

text \<open>Two states agree on the rules of an interface and kind when the markers are filtered alike.\<close>

lemma rules_of_kept:
  assumes "\<forall>p. filter (\<lambda>r. fld r ''comment'' \<noteq> m) (tbl s' p) = filter (\<lambda>r. fld r ''comment'' \<noteq> m) (tbl s p)"
    and "mark c x \<noteq> m"
  shows "rules_of tbl c x s' = rules_of tbl c x s"
proof -
  have "rules_of tbl c x t = filter (\<lambda>r. fld r ''comment'' = mark c x)
      (filter (\<lambda>r. fld r ''comment'' \<noteq> m) (tbl t (sweep_path x)))" for t
    using assms(2) by (auto simp: rules_of_def intro!: filter_cong)
  with assms(1) show ?thesis by (simp only:)
qed

section \<open>Clean-ups\<close>

lemma sweep_table:
  assumes ros: "table_router ros tbl" and ok: "tables_ok tbl s"
  shows "tbl (sweep ros c x s) =
    (tbl s)(sweep_path x := filter (\<lambda>r. fld r ''comment'' \<noteq> mark c x) (tbl s (sweep_path x)))"
proof -
  have ids: "ids_distinct (tbl s p)" for p using ok by (simp add: tables_ok_def)
  have p: "nr_path (NewNatReconciler c) = sweep_path Sweep4" "nr_path (NewNatReconciler6 c) = sweep_path Sweep6"
    "''/ip/firewall/nat'' = sweep_path SweepMasq"
    by (simp_all add: NewNatReconciler_def NewNatReconciler6_def sweep_path_def path_of_def)
  have m: "nat_ours (NewNatReconciler c) = (\<lambda>r. fld r ''comment'' = mark c Sweep4)"
    "nat_ours (NewNatReconciler6 c) = (\<lambda>r. fld r ''comment'' = mark c Sweep6)"
    "masq_ours (NewMasqueradeReconciler c) = (\<lambda>r. fld r ''comment'' = mark c SweepMasq)"
    by (simp_all add: fun_eq_iff nat_ours_def masq_ours_def mark_def NewNatReconciler_def
        NewNatReconciler6_def NewMasqueradeReconciler_def)
  show ?thesis
  proof (cases x)
    case Sweep4
    with nat_Remove_table [OF ros, of s "NewNatReconciler c"] ids show ?thesis
      unfolding p m by (auto simp: sweep_def)
  next
    case Sweep6
    with nat_Remove_table [OF ros, of s "NewNatReconciler6 c"] ids show ?thesis
      unfolding p m by (auto simp: sweep_def)
  next
    case SweepMasq
    with masq_Remove_table [OF ros, of s "NewMasqueradeReconciler c"] ids show ?thesis
      unfolding p m by (auto simp: sweep_def)
  qed
qed

lemma sweep_ok: "table_router ros tbl \<Longrightarrow> tables_ok tbl s \<Longrightarrow> tables_ok tbl (sweep ros c x s)"
  unfolding tables_ok_def [of tbl "sweep ros c x s"]
  by (simp add: sweep_table) (simp add: tables_ok_def ids_distinct_filter)

text \<open>A clean-up removes the rules it is about and no others.\<close>

lemma rules_of_sweep:
  assumes "table_router ros tbl" "tables_ok tbl s"
  shows "rules_of tbl c' y (sweep ros c x s) =
    (if y = x \<and> rc_Iface c' = rc_Iface c then [] else rules_of tbl c' y s)"
proof (cases "y = x \<and> rc_Iface c' = rc_Iface c")
  case True
  then have "mark c' y = mark c x" by (simp add: mark_eq)
  with True show ?thesis by (simp add: rules_of_def sweep_table [OF assms])
next
  case False
  show ?thesis
  proof (cases "sweep_path y = sweep_path x")
    case True
    with False have "mark c' y \<noteq> mark c x" by (cases x; cases y) (auto simp: mark_eq sweep_path_eq)
    with True False show ?thesis
      by (auto simp: rules_of_def sweep_table [OF assms] intro!: filter_cong)
  qed (use False in \<open>auto simp: rules_of_def sweep_table [OF assms]\<close>)
qed

section \<open>What a poll leaves\<close>

text \<open>Between two states no rule of another interface, or of a kind not in \<open>K\<close>, has changed.\<close>

definition touched :: "('s \<Rightarrow> string \<Rightarrow> row list) \<Rightarrow> rconfig \<Rightarrow> sweep set \<Rightarrow> 's \<Rightarrow> 's \<Rightarrow> bool" where
  "touched tbl c K s s' \<longleftrightarrow> tables_ok tbl s' \<and>
     (\<forall>c' x. rc_Iface c' \<noteq> rc_Iface c \<or> x \<notin> K \<longrightarrow> rules_of tbl c' x s' = rules_of tbl c' x s)"

lemma touched_refl: "tables_ok tbl s \<Longrightarrow> touched tbl c K s s"
  by (simp add: touched_def)

lemma touched_trans: "touched tbl c K s s' \<Longrightarrow> touched tbl c L s' s'' \<Longrightarrow> touched tbl c (K \<union> L) s s''"
  by (simp add: touched_def)

lemma touched_mono: "touched tbl c K s s' \<Longrightarrow> K \<subseteq> L \<Longrightarrow> touched tbl c L s s'"
  by (auto simp: touched_def)

lemma touched_others_kept: "tables_ok tbl s' \<Longrightarrow> others_kept tbl c s s' \<Longrightarrow> touched tbl c {Sweep4, Sweep6} s s'"
  unfolding touched_def
proof (intro conjI allI impI)
  fix c' :: rconfig and x assume k: "others_kept tbl c s s'" and x: "rc_Iface c' \<noteq> rc_Iface c \<or> x \<notin> {Sweep4, Sweep6}"
  have "mark c' x \<noteq> natComment c"
    using x mark_eq [of c' x c Sweep4] by (cases x) (auto simp: mark_def)
  then show "rules_of tbl c' x s' = rules_of tbl c' x s"
    by (rule rules_of_kept [rotated]) (use k in \<open>simp add: others_kept_def ours_def\<close>)
qed

text \<open>One rule of a kind, with the fields of a wanted divert rule.\<close>

definition one_rule :: "('s \<Rightarrow> string \<Rightarrow> row list) \<Rightarrow> rconfig \<Rightarrow> sweep \<Rightarrow> row \<Rightarrow> 's \<Rightarrow> bool" where
  "one_rule tbl c x want s \<longleftrightarrow> (\<exists>r. rules_of tbl c x s = [r] \<and> holds_fields want r)"

definition divert_row :: "rconfig \<Rightarrow> DivertRule \<Rightarrow> row" where
  "divert_row c want = AList.update ''comment'' (natComment c) (rule_fields want)"

lemma nat_row_divert: "nr_cfg n = c \<Longrightarrow> nat_row n want = divert_row c want"
  by (simp add: nat_row_def divert_row_def)

subsection \<open>Server mode\<close>

definition wf_server_hook :: "('s \<Rightarrow> string \<Rightarrow> row list) \<Rightarrow> rconfig \<Rightarrow> ServerHook \<Rightarrow> 's \<Rightarrow> bool" where
  "wf_server_hook tbl c h s \<longleftrightarrow> nr_cfg (sh_rec h) = c \<and> nr_path (sh_rec h) = path_of False \<and>
     nr_cfg (sh_rec6 h) = c \<and> nr_path (sh_rec6 h) = path_of True \<and>
     (sh_cleaned6 h \<longrightarrow> \<not> IsValid (dr_ToAddress (sh_want6 h)) \<and> rules_of tbl c Sweep6 s = [])"

text \<open>The rules of the server mode: the wanted one in the IPv4 table; in the IPv6 table the
  wanted one if there is a container address for it, else none.\<close>

definition served :: "('s \<Rightarrow> string \<Rightarrow> row list) \<Rightarrow> rconfig \<Rightarrow> ServerHook \<Rightarrow> 's \<Rightarrow> bool" where
  "served tbl c h s \<longleftrightarrow>
     (Router_Nat.validate (sh_want h) = None \<longrightarrow> one_rule tbl c Sweep4 (divert_row c (sh_want h)) s) \<and>
     (if IsValid (dr_ToAddress (sh_want6 h))
      then Router_Nat.validate (sh_want6 h) = None \<longrightarrow> one_rule tbl c Sweep6 (divert_row c (sh_want6 h)) s
      else rules_of tbl c Sweep6 s = [])"

lemma rules_path:
  "rules_of tbl c Sweep4 s = filter (ours c) (tbl s (path_of False))"
  "rules_of tbl c Sweep6 s = filter (ours c) (tbl s (path_of True))"
  by (simp_all add: rules_of_ours)

lemma rules_path_cong:
  "tbl s' (path_of False) = tbl s (path_of False) \<Longrightarrow> rules_of tbl c Sweep4 s' = rules_of tbl c Sweep4 s"
  "tbl s' (path_of True) = tbl s (path_of True) \<Longrightarrow> rules_of tbl c Sweep6 s' = rules_of tbl c Sweep6 s"
  by (simp_all add: rules_path)

lemma server_hook_step:
  assumes ros: "table_router ros tbl" and ok: "tables_ok tbl s" and h: "wf_server_hook tbl c h s"
  shows "\<exists>h' s'. server_hook ros snap h s = (h', s') \<and> wf_server_hook tbl c h' s' \<and>
    sh_want h' = sh_want h \<and> sh_want6 h' = sh_want6 h \<and>
    touched tbl c {Sweep4, Sweep6} s s' \<and> served tbl c h s'"
proof -
  from h have n: "nr_cfg (sh_rec h) = c" "nr_path (sh_rec h) = path_of False"
    and n6: "nr_cfg (sh_rec6 h) = c" "nr_path (sh_rec6 h) = path_of True"
    and clean: "sh_cleaned6 h \<longrightarrow> \<not> IsValid (dr_ToAddress (sh_want6 h)) \<and> rules_of tbl c Sweep6 s = []"
    by (simp_all add: wf_server_hook_def)
  obtain e1 n1 s1 where 1: "nat_Ensure ros (sh_rec h) (sh_want h) s = (e1, n1, s1)" "nr_cfg n1 = c"
    "nr_path n1 = path_of False" "tables_ok tbl s1" "others_kept tbl c s s1"
    "\<forall>p. p \<noteq> path_of False \<longrightarrow> tbl s1 p = tbl s p"
    "Router_Nat.validate (sh_want h) = None \<longrightarrow>
      (\<exists>r. filter (ours c) (tbl s1 (path_of False)) = [r] \<and> holds_fields (nat_row (sh_rec h) (sh_want h)) r)"
    using rec_Ensure_table [OF ros ok n, of "sh_want h"] by (elim exE conjE)
  have v4: "Router_Nat.validate (sh_want h) = None \<longrightarrow> one_rule tbl c Sweep4 (divert_row c (sh_want h)) s1"
    using 1(7) by (simp add: one_rule_def rules_path nat_row_divert [OF n(1)])
  have t1: "touched tbl c {Sweep4, Sweep6} s s1" by (rule touched_others_kept [OF 1(4,5)])
  have r61: "rules_of tbl c Sweep6 s1 = rules_of tbl c Sweep6 s" using 1(6) by (intro rules_path_cong) simp
  let ?h = "h\<lparr>sh_rec := n1\<rparr>"
  have keep4: "one_rule tbl c Sweep4 w s1 \<longrightarrow> one_rule tbl c Sweep4 w s2"
    if "\<forall>p. p \<noteq> path_of True \<longrightarrow> tbl s2 p = tbl s1 p" for s2 w
    using that by (simp add: one_rule_def rules_path)
  show ?thesis
  proof (cases "IsValid (dr_ToAddress (sh_want6 h))")
    case True
    obtain e2 n2 s2 where 2: "nat_Ensure ros (sh_rec6 h) (sh_want6 h) s1 = (e2, n2, s2)" "nr_cfg n2 = c"
      "nr_path n2 = path_of True" "tables_ok tbl s2" "others_kept tbl c s1 s2"
      "\<forall>p. p \<noteq> path_of True \<longrightarrow> tbl s2 p = tbl s1 p"
      "Router_Nat.validate (sh_want6 h) = None \<longrightarrow>
        (\<exists>r. filter (ours c) (tbl s2 (path_of True)) = [r] \<and> holds_fields (nat_row (sh_rec6 h) (sh_want6 h)) r)"
      using rec_Ensure_table [OF ros 1(4) n6, of "sh_want6 h"] by (elim exE conjE)
    have v6: "Router_Nat.validate (sh_want6 h) = None \<longrightarrow> one_rule tbl c Sweep6 (divert_row c (sh_want6 h)) s2"
      using 2(7) by (simp add: one_rule_def rules_path nat_row_divert [OF n6(1)])
    have "touched tbl c {Sweep4, Sweep6} s s2"
      using touched_trans [OF t1 touched_others_kept [OF 2(4,5)]] by simp
    moreover have "served tbl c h s2" using True v4 v6 keep4 [OF 2(6)] by (simp add: served_def)
    moreover have "wf_server_hook tbl c (?h\<lparr>sh_rec6 := n2\<rparr>) s2"
      using 1(2,3) 2(2,3) True clean by (simp add: wf_server_hook_def)
    moreover have "server_hook ros snap h s = (?h\<lparr>sh_rec6 := n2\<rparr>, s2)"
      using True by (simp add: server_hook_def 1(1) 2(1) Let_def)
    ultimately show ?thesis by simp
  next
    case False
    show ?thesis
    proof (cases "sh_cleaned6 h")
      case True
      have "server_hook ros snap h s = (?h, s1)"
        using False True by (simp add: server_hook_def 1(1) Let_def)
      moreover have "served tbl c h s1" using False True v4 clean r61 by (simp add: served_def)
      ultimately show ?thesis
        using t1 1(2,3) n6 clean r61 by (simp add: wf_server_hook_def)
    next
      case dirty: False
      obtain n2 s2 where 2: "nat_Remove ros (sh_rec6 h) s1 = (None, n2, s2)" "nr_cfg n2 = c"
        "nr_path n2 = path_of True" "tables_ok tbl s2" "others_kept tbl c s1 s2"
        "filter (ours c) (tbl s2 (path_of True)) = []" "\<forall>p. p \<noteq> path_of True \<longrightarrow> tbl s2 p = tbl s1 p"
        using rec_Remove_table [OF ros 1(4) n6] by (elim exE conjE)
      have v6: "rules_of tbl c Sweep6 s2 = []" using 2(6) by (simp add: rules_path)
      have "touched tbl c {Sweep4, Sweep6} s s2"
        using touched_trans [OF t1 touched_others_kept [OF 2(4,5)]] by simp
      moreover have "served tbl c h s2" using False v4 v6 keep4 [OF 2(7)] by (simp add: served_def)
      moreover have "wf_server_hook tbl c (?h\<lparr>sh_rec6 := n2, sh_cleaned6 := True\<rparr>) s2"
        using 1(2,3) 2(2,3) False v6 by (simp add: wf_server_hook_def)
      moreover have "server_hook ros snap h s = (?h\<lparr>sh_rec6 := n2, sh_cleaned6 := True\<rparr>, s2)"
        using False dirty by (simp add: server_hook_def 1(1) 2(1) Let_def)
      ultimately show ?thesis by simp
    qed
  qed
qed

subsection \<open>Masquerade\<close>

lemma touched_masq:
  assumes "tables_ok tbl s'" "\<forall>p. filter (\<lambda>r. fld r ''comment'' \<noteq> masqComment c) (tbl s' p) =
      filter (\<lambda>r. fld r ''comment'' \<noteq> masqComment c) (tbl s p)"
  shows "touched tbl c {SweepMasq} s s'"
  unfolding touched_def
proof (intro conjI allI impI)
  fix c' :: rconfig and x assume x: "rc_Iface c' \<noteq> rc_Iface c \<or> x \<notin> {SweepMasq}"
  have "mark c' x \<noteq> masqComment c" using x mark_eq [of c' x c SweepMasq] by (auto simp: mark_def)
  then show "rules_of tbl c' x s' = rules_of tbl c' x s" by (rule rules_of_kept [OF assms(2)])
qed (rule assms(1))

text \<open>The network of the interface in the router's tables, as the masquerade hook reads it.\<close>

definition iface_net :: "('s \<Rightarrow> string \<Rightarrow> row list) \<Rightarrow> rconfig \<Rightarrow> 's \<Rightarrow> ipprefix option" where
  "iface_net tbl c s =
     (let addr = (case find (\<lambda>it. fld it ''name'' = rc_Iface c) (tbl s ''/interface/wireguard'') of
            None \<Rightarrow> []
          | Some it \<Rightarrow> fld (first_addrs (tbl s ''/ip/address'') []) (fld it ''name''))
      in if addr = [] then None else map_option Masked (ParsePrefix addr))"

definition masq_row :: "rconfig \<Rightarrow> ipprefix \<Rightarrow> row" where
  "masq_row c net = masq_fields (NewMasqueradeReconciler c) net"

lemma masq_fields_row: "mr_cfg m = c \<Longrightarrow> masq_fields m net = masq_row c net"
  by (simp add: masq_row_def masq_fields_def NewMasqueradeReconciler_def)

definition masqueraded :: "('s \<Rightarrow> string \<Rightarrow> row list) \<Rightarrow> rconfig \<Rightarrow> 's \<Rightarrow> bool" where
  "masqueraded tbl c s \<longleftrightarrow>
     (\<forall>net. iface_net tbl c s = Some net \<longrightarrow> PrefixValid net \<longrightarrow>
        one_rule tbl c SweepMasq (masq_row c net) s)"

lemma iface_net_cong:
  assumes "tbl s' ''/interface/wireguard'' = tbl s ''/interface/wireguard''"
    and "tbl s' ''/ip/address'' = tbl s ''/ip/address''"
  shows "iface_net tbl c s' = iface_net tbl c s"
  unfolding iface_net_def assms ..

lemma find_map: "find P (map f xs) = map_option f (find (\<lambda>x. P (f x)) xs)"
  by (induction xs) simp_all

lemma masq_hook_reads:
  assumes ros: "table_router ros tbl"
  shows "\<exists>s1. tbl s1 = tbl s \<and> masq_hook ros c snap m s =
    (case iface_net tbl c s of None \<Rightarrow> (m, s1)
     | Some net \<Rightarrow> (case masq_Ensure ros m net s1 of (_, m, s) \<Rightarrow> (m, s)))"
proof -
  obtain s0 where 0: "ros_print ros ''/interface/wireguard'' s = (Inr (tbl s ''/interface/wireguard''), s0)"
    "tbl s0 = tbl s" using table_printE [OF ros] .
  obtain s1 where 1: "ros_print ros ''/ip/address'' s0 = (Inr (tbl s0 ''/ip/address''), s1)" "tbl s1 = tbl s0"
    using table_printE [OF ros] .
  have "masq_hook ros c snap m s =
    (case iface_net tbl c s of None \<Rightarrow> (m, s1)
     | Some net \<Rightarrow> (case masq_Ensure ros m net s1 of (_, m, s) \<Rightarrow> (m, s)))"
    by (auto simp: masq_hook_def ListInterfaces_def ifaceAddrs_def 0 1 find_map iface_net_def Let_def
        split: option.split)
  then show ?thesis using 0(2) 1(2) by auto
qed

lemma masq_hook_step:
  assumes ros: "table_router ros tbl" and ok: "tables_ok tbl s" and m: "mr_cfg m = c"
  shows "\<exists>m' s'. masq_hook ros c snap m s = (m', s') \<and> mr_cfg m' = c \<and>
    touched tbl c {SweepMasq} s s' \<and> masqueraded tbl c s'"
proof -
  obtain s1 where 1: "tbl s1 = tbl s" and hook: "masq_hook ros c snap m s =
      (case iface_net tbl c s of None \<Rightarrow> (m, s1)
       | Some net \<Rightarrow> (case masq_Ensure ros m net s1 of (_, m, s) \<Rightarrow> (m, s)))"
    using masq_hook_reads [OF ros] by blast
  have ok1: "tables_ok tbl s1" using ok 1 by (simp add: tables_ok_def)
  have t1: "touched tbl c {SweepMasq} s s1" by (rule touched_masq [OF ok1]) (simp add: 1)
  show ?thesis
  proof (cases "iface_net tbl c s")
    case None
    then have "iface_net tbl c s1 = None" using iface_net_cong [of tbl s1 s c] 1 by simp
    with None hook m t1 show ?thesis by (auto simp: masqueraded_def)
  next
    case (Some net)
    show ?thesis
    proof (cases "PrefixValid net")
      case False
      then have "masq_hook ros c snap m s = (m, s1)" using hook Some by (simp add: masq_Ensure_def)
      moreover have "iface_net tbl c s1 = Some net" using iface_net_cong [of tbl s1 s c] Some 1 by simp
      ultimately show ?thesis using m t1 False by (auto simp: masqueraded_def)
    next
      case True
      obtain a s2 where 2: "masq_Ensure ros m net s1 = (None, masq_logTransition a m, s2)"
        "reconciled (masq_ours m) (masq_fields m net) (tbl s1 ''/ip/firewall/nat'') (tbl s2 ''/ip/firewall/nat'')"
        "\<forall>q. q \<noteq> ''/ip/firewall/nat'' \<longrightarrow> tbl s2 q = tbl s1 q"
        using masq_Ensure_table [OF ros, of s1 net m] ok1 True by (auto simp: tables_ok_def)
      have fr: "tables_ok tbl s2 \<and> (\<forall>p. filter (\<lambda>r. fld r ''comment'' \<noteq> masqComment c) (tbl s2 p) =
          filter (\<lambda>r. fld r ''comment'' \<noteq> masqComment c) (tbl s1 p))"
        by (rule reconciled_frame [OF ok1 2(2,3) refl]) (simp add: masq_ours_def m)
      have t2: "touched tbl c {SweepMasq} s s2" by (rule touched_masq) (use fr 1 in simp_all)
      have net: "iface_net tbl c s2 = Some net" using iface_net_cong [of tbl s2 s c] Some 1 2(3) by simp
      have "one_rule tbl c SweepMasq (masq_row c net) s2"
        using 2(2) masq_fields_row [OF m]
        by (auto simp: one_rule_def reconciled_def rules_of_def sweep_path_def path_of_def mark_def
            masq_ours_def [abs_def] m)
      then have "masqueraded tbl c s2" using net by (simp add: masqueraded_def)
      moreover have "masq_hook ros c snap m s = (masq_logTransition a m, s2)"
        using hook Some 2(1) by simp
      ultimately show ?thesis using m t2 by (simp add: masq_logTransition_def)
    qed
  qed
qed

subsection \<open>All hooks of a stack\<close>

definition wf_hooks :: "('s \<Rightarrow> string \<Rightarrow> row list) \<Rightarrow> rconfig \<Rightarrow> Hooks \<Rightarrow> 's \<Rightarrow> bool" where
  "wf_hooks tbl c hk s \<longleftrightarrow>
     (\<forall>h. hk_client hk = Some h \<longrightarrow> wf_hook c h \<and> idle_clean tbl c h s \<and> hk_server hk = None) \<and>
     (\<forall>h. hk_server hk = Some h \<longrightarrow> wf_server_hook tbl c h s) \<and>
     (\<forall>m. hk_masq hk = Some m \<longrightarrow> mr_cfg m = c)"

definition hook_kinds :: "Hooks \<Rightarrow> sweep set" where
  "hook_kinds hk =
     (if hk_client hk = None \<and> hk_server hk = None then {} else {Sweep4, Sweep6}) \<union>
     (if hk_masq hk = None then {} else {SweepMasq})"

text \<open>The variables of the hooks that do not change.\<close>

definition same_hooks :: "Hooks \<Rightarrow> Hooks \<Rightarrow> bool" where
  "same_hooks hk hk' \<longleftrightarrow>
     rel_option same_setup (hk_client hk) (hk_client hk') \<and>
     rel_option (\<lambda>h h'. sh_want h' = sh_want h \<and> sh_want6 h' = sh_want6 h) (hk_server hk) (hk_server hk') \<and>
     rel_option (\<lambda>m m'. mr_cfg m' = mr_cfg m) (hk_masq hk) (hk_masq hk')"

text \<open>The rules are what the snapshot and the options demand.\<close>

definition rules_right :: "('s \<Rightarrow> string \<Rightarrow> row list) \<Rightarrow> rconfig \<Rightarrow> Hooks \<Rightarrow> Snapshot \<Rightarrow> 's \<Rightarrow> bool" where
  "rules_right tbl c hk snap s \<longleftrightarrow>
     (\<forall>h. hk_client hk = Some h \<longrightarrow> diverted tbl c h snap s) \<and>
     (\<forall>h. hk_server hk = Some h \<longrightarrow> served tbl c h s) \<and>
     (hk_masq hk \<noteq> None \<longrightarrow> masqueraded tbl c s)"

lemma ours_rules: "filter (ours c) (tbl s (path_of b)) = rules_of tbl c (if b then Sweep6 else Sweep4) s"
  by (rule rules_of_ours)

lemma diverted_rules:
  assumes "rules_of tbl c Sweep4 s' = rules_of tbl c Sweep4 s" "rules_of tbl c Sweep6 s' = rules_of tbl c Sweep6 s"
  shows "diverted tbl c h snap s' = diverted tbl c h snap s"
  unfolding diverted_def ours_rules if_distrib [of "\<lambda>x. rules_of tbl c x s'"] assms
    if_distrib [of "\<lambda>x. rules_of tbl c x s", symmetric] ..

lemma served_rules:
  assumes "rules_of tbl c Sweep4 s' = rules_of tbl c Sweep4 s" "rules_of tbl c Sweep6 s' = rules_of tbl c Sweep6 s"
  shows "served tbl c h s' = served tbl c h s"
  unfolding served_def one_rule_def assms ..

text \<open>What is clean stays clean while others do not add rules with the markers.\<close>

definition no_rules_added :: "('s \<Rightarrow> string \<Rightarrow> row list) \<Rightarrow> 's \<Rightarrow> 's \<Rightarrow> bool" where
  "no_rules_added tbl s s' \<longleftrightarrow> tables_ok tbl s' \<and>
     (\<forall>c x. rules_of tbl c x s = [] \<longrightarrow> rules_of tbl c x s' = [])"

lemma idle_clean_mono: "no_rules_added tbl s s' \<Longrightarrow> idle_clean tbl c h s \<Longrightarrow> idle_clean tbl c h s'"
  by (auto simp: no_rules_added_def idle_clean_def ours_rules split: option.splits)

lemma wf_server_hook_mono: "no_rules_added tbl s s' \<Longrightarrow> wf_server_hook tbl c h s \<Longrightarrow> wf_server_hook tbl c h s'"
  by (auto simp: no_rules_added_def wf_server_hook_def)

lemma wf_hooks_mono:
  assumes "no_rules_added tbl s s'" "wf_hooks tbl c hk s"
  shows "wf_hooks tbl c hk s'"
  using assms(2) by (auto simp: wf_hooks_def idle_clean_mono [OF assms(1)] wf_server_hook_mono [OF assms(1)])

lemma run_hook_simps: "run_hook f None s = (None, s)" "f h s = (h', s') \<Longrightarrow> run_hook f (Some h) s = (Some h', s')"
  by (simp_all add: run_hook_def)

lemma no_rules_added_sweep:
  "table_router ros tbl \<Longrightarrow> tables_ok tbl s \<Longrightarrow> no_rules_added tbl s (sweep ros c x s)"
  by (simp add: no_rules_added_def sweep_ok rules_of_sweep)

lemma idle_clean_kept: "touched tbl c {SweepMasq} s s' \<Longrightarrow> idle_clean tbl c h s \<Longrightarrow> idle_clean tbl c h s'"
  by (auto simp: idle_clean_def touched_def ours_rules split: option.splits)

lemma wf_server_hook_kept:
  "touched tbl c {SweepMasq} s s' \<Longrightarrow> wf_server_hook tbl c h s \<Longrightarrow> wf_server_hook tbl c h s'"
  by (auto simp: wf_server_hook_def touched_def)

lemma touched_rules: "touched tbl c {SweepMasq} s s' \<Longrightarrow> x \<noteq> SweepMasq \<Longrightarrow> rules_of tbl c x s' = rules_of tbl c x s"
  by (simp add: touched_def)

text \<open>The divert hook of the mode.\<close>

lemma divert_hooks_step:
  assumes ros: "table_router ros tbl" and ok: "tables_ok tbl s" and hk: "wf_hooks tbl c hk s"
  shows "\<exists>cl s1 sv s2. run_hook (client_hook ros snap) (hk_client hk) s = (cl, s1) \<and>
    run_hook (server_hook ros snap) (hk_server hk) s1 = (sv, s2) \<and>
    same_hooks hk (hk\<lparr>hk_client := cl, hk_server := sv\<rparr>) \<and>
    wf_hooks tbl c (hk\<lparr>hk_client := cl, hk_server := sv\<rparr>) s2 \<and>
    touched tbl c (hook_kinds (hk\<lparr>hk_masq := None\<rparr>)) s s2 \<and>
    rules_right tbl c (hk\<lparr>hk_masq := None\<rparr>) snap s2"
proof -
  have refl: "rel_option (\<lambda>m m'. mr_cfg m' = mr_cfg m) x x" for x by (rule option.rel_refl) simp
  have m: "\<forall>m. hk_masq hk = Some m \<longrightarrow> mr_cfg m = c" using hk by (simp add: wf_hooks_def)
  show ?thesis
  proof (cases "hk_client hk")
    case (Some h)
    with hk have h: "wf_hook c h" "idle_clean tbl c h s" "hk_server hk = None" by (simp_all add: wf_hooks_def)
    obtain h' s' where 1: "client_hook ros snap h s = (h', s')" "wf_hook c h'" "same_setup h h'"
      "idle_clean tbl c h' s'" "tables_ok tbl s'" "others_kept tbl c s s'" "diverted tbl c h snap s'"
      using client_hook_step [OF ros ok h(1,2)] by blast
    have "touched tbl c {Sweep4, Sweep6} s s'" by (rule touched_others_kept [OF 1(5,6)])
    then show ?thesis using Some h(3) 1 refl m
      by (simp add: run_hook_def same_hooks_def wf_hooks_def hook_kinds_def rules_right_def)
  next
    case None
    show ?thesis
    proof (cases "hk_server hk")
      case (Some h)
      with hk have h: "wf_server_hook tbl c h s" by (simp add: wf_hooks_def)
      obtain h' s' where 1: "server_hook ros snap h s = (h', s')" "wf_server_hook tbl c h' s'"
        "sh_want h' = sh_want h" "sh_want6 h' = sh_want6 h" "touched tbl c {Sweep4, Sweep6} s s'" "served tbl c h s'"
        using server_hook_step [OF ros ok h] by blast
      then show ?thesis using None Some refl m
        by (simp add: run_hook_def same_hooks_def wf_hooks_def hook_kinds_def rules_right_def)
    next
      case none: None
      with None show ?thesis using refl m touched_refl [OF ok]
        by (simp add: run_hook_def same_hooks_def wf_hooks_def hook_kinds_def rules_right_def)
    qed
  qed
qed

lemma rules_right_kept:
  assumes "touched tbl c {SweepMasq} s s'"
  shows "rules_right tbl c (hk\<lparr>hk_masq := None\<rparr>) snap s' = rules_right tbl c (hk\<lparr>hk_masq := None\<rparr>) snap s"
  using touched_rules [OF assms, of Sweep4] touched_rules [OF assms, of Sweep6]
  by (simp add: rules_right_def diverted_rules [of tbl c s' s] served_rules [of tbl c s' s])

text \<open>A run of all hooks: nothing but the rules of the interface and of the options that are on
  has changed, and these are right.\<close>

lemma onTick_step:
  assumes ros: "table_router ros tbl" and ok: "tables_ok tbl s" and hk: "wf_hooks tbl c hk s"
  shows "\<exists>hk' s'. onTick ros c snap hk s = (hk', s') \<and> same_hooks hk hk' \<and> wf_hooks tbl c hk' s' \<and>
    touched tbl c (hook_kinds hk) s s' \<and> rules_right tbl c hk snap s'"
proof -
  obtain cl s1 sv s2 where 1: "run_hook (client_hook ros snap) (hk_client hk) s = (cl, s1)"
    "run_hook (server_hook ros snap) (hk_server hk) s1 = (sv, s2)"
    "same_hooks hk (hk\<lparr>hk_client := cl, hk_server := sv\<rparr>)"
    "wf_hooks tbl c (hk\<lparr>hk_client := cl, hk_server := sv\<rparr>) s2"
    "touched tbl c (hook_kinds (hk\<lparr>hk_masq := None\<rparr>)) s s2"
    "rules_right tbl c (hk\<lparr>hk_masq := None\<rparr>) snap s2"
    using divert_hooks_step [OF ros ok hk, of snap] by (elim exE conjE)
  show ?thesis
  proof (cases "hk_masq hk")
    case None
    then have "onTick ros c snap hk s = (hk\<lparr>hk_client := cl, hk_server := sv\<rparr>, s2)" "hk\<lparr>hk_masq := None\<rparr> = hk"
      by (simp_all add: onTick_def 1(1,2) run_hook_simps)
    with 1 show ?thesis by auto
  next
    case (Some m)
    with hk have m: "mr_cfg m = c" by (simp add: wf_hooks_def)
    have ok2: "tables_ok tbl s2" using 1(5) by (simp add: touched_def)
    obtain m' s3 where 2: "masq_hook ros c snap m s2 = (m', s3)" "mr_cfg m' = c"
      "touched tbl c {SweepMasq} s2 s3" "masqueraded tbl c s3"
      using masq_hook_step [OF ros ok2 m] by blast
    let ?hk = "\<lparr>hk_client = cl, hk_server = sv, hk_masq = Some m'\<rparr>"
    have "onTick ros c snap hk s = (?hk, s3)"
      using Some by (simp add: onTick_def 1(1,2) run_hook_simps 2(1))
    moreover have "same_hooks hk ?hk" using 1(3) Some m 2(2) by (simp add: same_hooks_def)
    moreover have "wf_hooks tbl c ?hk s3"
      using 1(4) 2(2) idle_clean_kept [OF 2(3)] wf_server_hook_kept [OF 2(3)] by (simp add: wf_hooks_def)
    moreover have "touched tbl c (hook_kinds hk) s s3"
      by (rule touched_mono [OF touched_trans [OF 1(5) 2(3)]]) (simp add: hook_kinds_def Some)
    moreover have "rules_right tbl c hk snap s3"
      using rules_right_kept [OF 2(3), of hk snap] 1(6) 2(4) by (simp add: rules_right_def)
    ultimately show ?thesis by blast
  qed
qed

text \<open>The hooks of a start are in order, and their kinds are the options that are on.\<close>

lemma startHooks_wf: "wf_hooks tbl c (fst (startHooks cfg c)) s"
  by (auto simp: startHooks_def Let_def wf_hooks_def idle_clean_def wf_server_hook_def
      NewMasqueradeReconciler_def makeServerDivertHook_def NewNatReconciler_def NewNatReconciler6_def path_of_def
      ModeServer_def ModeClient_def dest: makeClientDivertHook_wf split: option.splits if_splits)

lemma same_hooks_refl: "same_hooks hk hk"
  by (simp add: same_hooks_def option.rel_refl)

lemma same_hooks_trans: "same_hooks a b \<Longrightarrow> same_hooks b c \<Longrightarrow> same_hooks a c"
  unfolding same_hooks_def
  by (cases "hk_client a"; cases "hk_client b"; cases "hk_client c"; cases "hk_server a"; cases "hk_server b";
      cases "hk_server c"; cases "hk_masq a"; cases "hk_masq b"; cases "hk_masq c")
    (auto intro: same_setup_trans)

lemma same_hooks_kinds: "same_hooks hk hk' \<Longrightarrow> hook_kinds hk' = hook_kinds hk"
  by (auto simp: same_hooks_def hook_kinds_def rel_option_iff split: option.splits)

lemma same_hooks_right:
  assumes "same_hooks hk hk'"
  shows "rules_right tbl c hk' snap s = rules_right tbl c hk snap s"
proof -
  have "(\<forall>h. hk_client hk' = Some h \<longrightarrow> diverted tbl c h snap s) = (\<forall>h. hk_client hk = Some h \<longrightarrow> diverted tbl c h snap s)"
    using assms by (cases "hk_client hk"; cases "hk_client hk'") (auto simp: same_hooks_def diverted_setup)
  moreover have "(\<forall>h. hk_server hk' = Some h \<longrightarrow> served tbl c h s) = (\<forall>h. hk_server hk = Some h \<longrightarrow> served tbl c h s)"
    using assms by (cases "hk_server hk"; cases "hk_server hk'") (auto simp: same_hooks_def served_def)
  moreover have "hk_masq hk' = None \<longleftrightarrow> hk_masq hk = None"
    using assms by (cases "hk_masq hk"; cases "hk_masq hk'") (auto simp: same_hooks_def)
  ultimately show ?thesis by (simp add: rules_right_def)
qed

section \<open>The router of each configuration\<close>

text \<open>Without an address every command fails before anything is sent.\<close>

definition no_access :: "'s ros \<Rightarrow> bool" where
  "no_access ros \<longleftrightarrow>
     (\<forall>p s. \<exists>e. ros_print ros p s = (Inl e, s)) \<and> (\<forall>p kv s. \<exists>e. ros_add ros p kv s = (Inl e, s)) \<and>
     (\<forall>p i kv s. \<exists>e. ros_set ros p i kv s = (Inl e, s)) \<and> (\<forall>p i s. \<exists>e. ros_remove ros p i s = (Inl e, s))"

lemma binapi_no_access: "rc_Address c = [] \<Longrightarrow> no_access (binapi_ros tr c)"
  by (simp add: no_access_def binapi_ros_def callPrint_def callAdd_def callSet_def callRemove_def
      with_dialer_def Dialer_def)

text \<open>All configurations with an address reach the same router.\<close>

definition fleet :: "(rconfig \<Rightarrow> 's ros) \<Rightarrow> ('s \<Rightarrow> string \<Rightarrow> row list) \<Rightarrow> bool" where
  "fleet rosf tbl \<longleftrightarrow>
     (\<forall>c. if rc_Address c = [] then no_access (rosf c) else table_router (rosf c) tbl)"

lemma fleet_router: "fleet rosf tbl \<Longrightarrow> rc_Address c \<noteq> [] \<Longrightarrow> table_router (rosf c) tbl"
  by (simp add: fleet_def)

lemma fleet_none: "fleet rosf tbl \<Longrightarrow> rc_Address c = [] \<Longrightarrow> no_access (rosf c)"
  by (metis fleet_def)

lemma no_access_print: "no_access ros \<Longrightarrow> \<exists>e. ros_print ros p s = (Inl e, s)"
  by (simp add: no_access_def)

lemma sweep_no_access:
  assumes "no_access ros"
  shows "sweep ros c x s = s"
proof -
  obtain e4 where 4: "ros_print ros ''/ip/firewall/nat'' s = (Inl e4, s)" using no_access_print [OF assms] by blast
  obtain e6 where 6: "ros_print ros ''/ipv6/firewall/nat'' s = (Inl e6, s)" using no_access_print [OF assms] by blast
  show ?thesis
    by (cases x) (simp_all add: sweep_def nat_Remove_def nat_list_def masq_Remove_def masq_list_def
        NewNatReconciler_def NewNatReconciler6_def 4 6)
qed

lemma fleet_sweep_added:
  "fleet rosf tbl \<Longrightarrow> tables_ok tbl s \<Longrightarrow> no_rules_added tbl s (sweep (rosf c) c x s)"
  by (cases "rc_Address c = []")
    (simp_all add: sweep_no_access fleet_none no_rules_added_sweep fleet_router, simp add: no_rules_added_def)

lemma fetchAPI_tables:
  assumes ros: "table_router ros tbl"
  shows "\<exists>r s1. fetchAPI ros lookup c s = (r, s1) \<and> tbl s1 = tbl s"
proof -
  obtain s0 where 0: "ros_print ros ''/interface/wireguard'' s = (Inr (tbl s ''/interface/wireguard''), s0)"
    "tbl s0 = tbl s" using table_printE [OF ros] .
  obtain s1 where 1: "ros_print ros ''/interface/wireguard/peers'' s0 =
      (Inr (tbl s0 ''/interface/wireguard/peers''), s1)" "tbl s1 = tbl s0"
    using table_printE [OF ros] .
  show ?thesis by (auto simp: fetchAPI_def 0 1 split: option.split sum.split)
qed

lemma fetchAPI_no_access: "no_access ros \<Longrightarrow> \<exists>e. fetchAPI ros lookup c s = (Inl e, s)"
  using no_access_print [of ros "''/interface/wireguard''" s] by (auto simp: fetchAPI_def)

text \<open>A poll with the hooks of a stack.\<close>

lemma tick_hooks:
  assumes fl: "fleet rosf tbl" and ok: "tables_ok tbl s" and hk: "wf_hooks tbl c hk s" and p: "po_cfg p = c"
  shows "\<exists>p' hk' s'. tick (rosf c) lookup (onTick (rosf c) c) p hk s = (p', hk', s') \<and> po_cfg p' = c \<and>
    same_hooks hk hk' \<and> wf_hooks tbl c hk' s' \<and> touched tbl c (hook_kinds hk) s s' \<and>
    (\<forall>snap s1. fetchAPI (rosf c) lookup c s = (Inr snap, s1) \<longrightarrow>
       po_cur p' = Some snap \<and> rules_right tbl c hk snap s')"
proof (cases "rc_Address c = []")
  case True
  obtain e where "fetchAPI (rosf c) lookup c s = (Inl e, s)"
    using fetchAPI_no_access [OF fleet_none [OF fl True]] by blast
  then show ?thesis by (simp add: tick_def p hk touched_refl [OF ok] same_hooks_refl)
next
  case False
  note ros = fleet_router [OF fl False]
  obtain r s1 where 1: "fetchAPI (rosf c) lookup c s = (r, s1)" "tbl s1 = tbl s"
    using fetchAPI_tables [OF ros] by blast
  have same: "rules_of tbl d x s1 = rules_of tbl d x s" for d x by (simp add: rules_of_def 1(2))
  have added: "no_rules_added tbl s s1" using ok by (simp add: no_rules_added_def same tables_ok_def 1(2))
  then have ok1: "tables_ok tbl s1" by (simp add: no_rules_added_def)
  have t1: "touched tbl c K s s1" for K using ok1 by (simp add: touched_def same)
  note hk1 = wf_hooks_mono [OF added hk]
  show ?thesis
  proof (cases r)
    case (Inl e)
    then show ?thesis by (simp add: tick_def p 1(1) hk1 t1 same_hooks_refl)
  next
    case (Inr snap)
    obtain hk' s' where 2: "onTick (rosf c) c snap hk s1 = (hk', s')" "same_hooks hk hk'"
      "wf_hooks tbl c hk' s'" "touched tbl c (hook_kinds hk) s1 s'" "rules_right tbl c hk snap s'"
      using onTick_step [OF ros ok1 hk1] by blast
    have "touched tbl c (hook_kinds hk) s s'" using touched_trans [OF t1 [of "{}"] 2(4)] by simp
    then show ?thesis using 2 by (simp add: tick_def p 1(1) Inr)
  qed
qed

end
