(* ===== verification/Supervisor.thy ===== *)
theory Supervisor
  imports Stack_Rules Proxy_Server
begin

text \<open>
  Command \<open>awgproxy\<close> (\<open>main.go\<close>) and the loop of the poller: the supervisor loads the
  configuration, runs the stack of it and starts over when the web interface has saved another
  one. What runs concurrently is a labelled transition system: the web interface (which writes
  the file and then raises the reload signal), the supervisor, the poller's ticks, the clean-up
  goroutines one removal at a time, and whoever else changes the router. The router is a family
  \<open>rosf\<close> of command sets over one state, one per configuration.
\<close>

section \<open>The poller's loop\<close>

definition poller_New :: "rconfig \<Rightarrow> Poller" where
  "poller_New c = \<lparr>po_cfg = c, po_cur = None\<rparr>"

definition po_Snapshot :: "Poller \<Rightarrow> Snapshot option" where
  "po_Snapshot p = po_cur p"

text \<open>\<open>Run\<close> polls once and only then makes its ticker, which panics (\<open>None\<close>) on an interval that
  is not positive.\<close>

definition poller_ticker :: "Poller \<Rightarrow> unit option" where
  "poller_ticker p = NewTicker (rc_Interval (po_cfg p))"

section \<open>Start-up configuration\<close>

text \<open>\<open>startupConfig\<close>: defaults when the file cannot be read.\<close>

definition startupConfig :: "jsonlib \<Rightarrow> cfile \<Rightarrow> Config" where
  "startupConfig lib f = ToConfig (case Read lib f of Inl _ \<Rightarrow> zeroSettings | Inr s \<Rightarrow> s)"

definition logLevel :: "jsonlib \<Rightarrow> cfile \<Rightarrow> int" where
  "logLevel lib f = c_LogLevel (startupConfig lib f)"

definition webAddr :: "jsonlib \<Rightarrow> cfile \<Rightarrow> string" where
  "webAddr lib f = c_WebListen (startupConfig lib f)"

section \<open>The supervisor\<close>

text \<open>The web server outlives the stacks; its address is read once, at start. When it cannot
  listen (or stops), that is logged and the program goes on without it.\<close>

datatype webphase = WebStarting | WebServing | WebFailed

record webserver =
  web_Addr :: string
  web_phase :: webphase

definition startWeb :: "jsonlib \<Rightarrow> cfile \<Rightarrow> webserver" where
  "startWeb lib f = \<lparr>web_Addr = webAddr lib f, web_phase = WebStarting\<rparr>"

record stack =
  sk_cfg :: Config
  sk_rcfg :: rconfig
  sk_poller :: Poller
  sk_hooks :: Hooks
  sk_ticking :: bool         \<comment> \<open>the poller has its ticker\<close>
  sk_jobs :: "cleanup list"  \<comment> \<open>its clean-up goroutines\<close>

datatype phase =
    Loading
  | Waiting                  \<comment> \<open>in \<open>waitReload\<close>\<close>
  | Running stack
  | Stopped
  | Crashed

record 's sup =
  su_file :: cfile
  su_writing :: "string list" \<comment> \<open>texts of saves that have opened (and emptied) the file\<close>
  su_owed :: nat             \<comment> \<open>saves whose \<open>triggerReload\<close> is still to come\<close>
  su_pending :: bool         \<comment> \<open>a signal is in the channel (of capacity one)\<close>
  su_term :: bool            \<comment> \<open>the program's context is cancelled\<close>
  su_prev :: "rconfig option"
  su_cur :: "Poller option"  \<comment> \<open>\<open>curPoller\<close>, which the web interface reads\<close>
  su_phase :: phase
  su_jobs :: "cleanup list"  \<comment> \<open>clean-ups under the program's context\<close>
  su_cut :: "cleanup list"   \<comment> \<open>clean-ups of stacks that have ended\<close>
  su_web :: webserver
  su_rst :: 's

definition triggerReload :: "'s sup \<Rightarrow> 's sup" where
  "triggerReload su = su\<lparr>su_pending := True\<rparr>"

text \<open>What \<open>waitReload\<close> can return: when both channels are ready, \<open>select\<close> takes either.\<close>

definition waitReload :: "'s sup \<Rightarrow> bool list" where
  "waitReload su = (if su_term su then [False] else []) @ (if su_pending su then [True] else [])"

definition startStack :: "Config \<Rightarrow> rconfig \<Rightarrow> stack" where
  "startStack cfg rcfg =
     (case startHooks cfg rcfg of (hk, jobs) \<Rightarrow>
        \<lparr>sk_cfg = cfg, sk_rcfg = rcfg, sk_poller = poller_New rcfg, sk_hooks = hk, sk_ticking = False,
          sk_jobs = jobs\<rparr>)"

text \<open>One iteration of \<open>supervise\<close> up to its \<open>select\<close>: the validation is only logged. With the
  new state comes the configuration that was loaded, if any.\<close>

definition supervise_load :: "jsonlib \<Rightarrow> 's sup \<Rightarrow> rconfig option \<times> 's sup" where
  "supervise_load lib su =
     (case Load lib (su_file su) of
        Inl e \<Rightarrow> (None, su\<lparr>su_phase := Waiting\<rparr>)
      | Inr cfg \<Rightarrow>
          (let newRcfg = buildRouterConfig cfg;
               jobs = cleanupStaleRules (su_prev su) newRcfg;
               k = startStack cfg newRcfg
           in (Some newRcfg, su\<lparr>su_jobs := su_jobs su @ jobs, su_prev := Some newRcfg,
                su_cur := Some (sk_poller k), su_phase := Running k\<rparr>)))"

text \<open>A tick of the running poller, with the hooks of the stack.\<close>

definition stack_tick ::
  "(rconfig \<Rightarrow> 's ros) \<Rightarrow> (string \<Rightarrow> gerror + ipaddr list) \<Rightarrow> stack \<Rightarrow> 's \<Rightarrow> stack \<times> 's" where
  "stack_tick rosf lookup k s =
     (case tick (rosf (sk_rcfg k)) lookup (onTick (rosf (sk_rcfg k)) (sk_rcfg k))
        (sk_poller k) (sk_hooks k) s of
        (p, hk, s) \<Rightarrow> (k\<lparr>sk_poller := p, sk_hooks := hk\<rparr>, s))"

text \<open>The next removal of any of the goroutines.\<close>

inductive next_sweep :: "cleanup list \<Rightarrow> rconfig \<Rightarrow> sweep \<Rightarrow> cleanup list \<Rightarrow> bool" where
  now: "next_sweep ((c, x # xs) # js) c x ((c, xs) # js)"
| other: "next_sweep js c x js' \<Longrightarrow> next_sweep (j # js) c x (j # js')"

text \<open>\<open>os.WriteFile\<close> empties the file when it opens it and then writes from the start: with two saves
  under way, what the first has written beyond the length of the second stays.\<close>

definition overwrite :: "string \<Rightarrow> cfile \<Rightarrow> cfile" where
  "overwrite d f = (case f of Content c \<Rightarrow> Content (d @ drop (length d) c) | _ \<Rightarrow> Content d)"

text \<open>The two steps of a save of the web interface, or its failure half-way (a save that is refused or
  cannot open the file changes nothing), the signal behind a successful one, an
  iteration of the supervisor, its acceptance of the signal (which stops the stack), a tick, a
  removal of a clean-up goroutine, a removal that fails because its context is cancelled (it needs
  a new connection; on an open one it still succeeds), a change of the router by others, the
  web server, the request to end the program and its end. The stack does not end on its own:
  \<open>done\<close> is closed when the poller's loop returns, and that it does only when its context is
  cancelled, so the third branch of the \<open>select\<close> of \<open>supervise\<close> is never taken.\<close>

definition up :: "'s sup \<Rightarrow> bool" where
  "up su \<longleftrightarrow> su_phase su \<noteq> Stopped \<and> su_phase su \<noteq> Crashed"

datatype 's sevent =
    SOpen Settings string
  | SSave string
  | SSaveFailed string nat
  | STrigger
  | SLoad "rconfig option"
  | SReload
  | STick
  | SSweep rconfig sweep
  | SSweepFailed rconfig sweep
  | SRouter 's 's
  | SWebUp
  | SWebDown
  | STerm
  | SStop

inductive sup_step ::
  "jsonlib \<Rightarrow> (rconfig \<Rightarrow> 's ros) \<Rightarrow> (string \<Rightarrow> gerror + ipaddr list) \<Rightarrow> 's sup \<Rightarrow> 's sevent \<Rightarrow> 's sup \<Rightarrow> bool"
  for lib rosf lookup where
  save_open:
    "up su \<Longrightarrow> web_phase (su_web su) = WebServing \<Longrightarrow> validateSection sec (ToConfig st) = None \<Longrightarrow>
     sup_step lib rosf lookup su (SOpen st sec)
       (su\<lparr>su_file := Content [], su_writing := su_writing su @ [js_print lib (settings_json (withDefaults st))]\<rparr>)"
| save_done:
    "up su \<Longrightarrow> su_writing su = ws @ d # ws' \<Longrightarrow>
     sup_step lib rosf lookup su (SSave d)
       (su\<lparr>su_file := overwrite d (su_file su), su_writing := ws @ ws', su_owed := su_owed su + 1\<rparr>)"
| save_err:
    "up su \<Longrightarrow> su_writing su = ws @ d # ws' \<Longrightarrow>
     sup_step lib rosf lookup su (SSaveFailed d n)
       (su\<lparr>su_file := overwrite (take n d) (su_file su), su_writing := ws @ ws'\<rparr>)"
| trigger:
    "up su \<Longrightarrow> su_owed su = Suc n \<Longrightarrow>
     sup_step lib rosf lookup su STrigger (triggerReload (su\<lparr>su_owed := n\<rparr>))"
| load:
    "su_phase su = Loading \<Longrightarrow> supervise_load lib su = (r, su') \<Longrightarrow> sup_step lib rosf lookup su (SLoad r) su'"
| reload_waiting:
    "su_phase su = Waiting \<Longrightarrow> True \<in> set (waitReload su) \<Longrightarrow>
     sup_step lib rosf lookup su SReload (su\<lparr>su_pending := False, su_phase := Loading\<rparr>)"
| reload_running:
    "su_phase su = Running k \<Longrightarrow> su_pending su \<Longrightarrow>
     sup_step lib rosf lookup su SReload
       (su\<lparr>su_pending := False, su_phase := Loading, su_cut := su_cut su @ sk_jobs k\<rparr>)"
| tick_first:
    "su_phase su = Running k \<Longrightarrow> \<not> sk_ticking k \<Longrightarrow> stack_tick rosf lookup k (su_rst su) = (k', s) \<Longrightarrow>
     sup_step lib rosf lookup su STick
       (su\<lparr>su_rst := s, su_cur := Some (sk_poller k'), su_phase := (case poller_ticker (sk_poller k) of
           None \<Rightarrow> Crashed | Some _ \<Rightarrow> Running (k'\<lparr>sk_ticking := True\<rparr>))\<rparr>)"
| tick_next:
    "su_phase su = Running k \<Longrightarrow> sk_ticking k \<Longrightarrow> stack_tick rosf lookup k (su_rst su) = (k', s) \<Longrightarrow>
     sup_step lib rosf lookup su STick
       (su\<lparr>su_rst := s, su_cur := Some (sk_poller k'), su_phase := Running k'\<rparr>)"
| sweep_program:
    "up su \<Longrightarrow> next_sweep (su_jobs su) c x js \<Longrightarrow>
     sup_step lib rosf lookup su (SSweep c x) (su\<lparr>su_jobs := js, su_rst := sweep (rosf c) c x (su_rst su)\<rparr>)"
| sweep_stack:
    "su_phase su = Running k \<Longrightarrow> next_sweep (sk_jobs k) c x js \<Longrightarrow>
     sup_step lib rosf lookup su (SSweep c x)
       (su\<lparr>su_phase := Running (k\<lparr>sk_jobs := js\<rparr>), su_rst := sweep (rosf c) c x (su_rst su)\<rparr>)"
| sweep_ended:
    "up su \<Longrightarrow> next_sweep (su_cut su) c x js \<Longrightarrow>
     sup_step lib rosf lookup su (SSweep c x) (su\<lparr>su_cut := js, su_rst := sweep (rosf c) c x (su_rst su)\<rparr>)"
| fail_program:
    "up su \<Longrightarrow> su_term su \<Longrightarrow> next_sweep (su_jobs su) c x js \<Longrightarrow>
     sup_step lib rosf lookup su (SSweepFailed c x) (su\<lparr>su_jobs := js\<rparr>)"
| fail_stack:
    "su_phase su = Running k \<Longrightarrow> su_term su \<Longrightarrow> next_sweep (sk_jobs k) c x js \<Longrightarrow>
     sup_step lib rosf lookup su (SSweepFailed c x) (su\<lparr>su_phase := Running (k\<lparr>sk_jobs := js\<rparr>)\<rparr>)"
| fail_ended:
    "up su \<Longrightarrow> next_sweep (su_cut su) c x js \<Longrightarrow>
     sup_step lib rosf lookup su (SSweepFailed c x) (su\<lparr>su_cut := js\<rparr>)"
| router:
    "up su \<Longrightarrow> sup_step lib rosf lookup su (SRouter (su_rst su) s) (su\<lparr>su_rst := s\<rparr>)"
| web_up:
    "up su \<Longrightarrow> web_phase (su_web su) = WebStarting \<Longrightarrow>
     sup_step lib rosf lookup su SWebUp (su\<lparr>su_web := (su_web su)\<lparr>web_phase := WebServing\<rparr>\<rparr>)"
| web_down:
    "up su \<Longrightarrow> sup_step lib rosf lookup su SWebDown (su\<lparr>su_web := (su_web su)\<lparr>web_phase := WebFailed\<rparr>\<rparr>)"
| cancel:
    "up su \<Longrightarrow> sup_step lib rosf lookup su STerm
       (su\<lparr>su_term := True, su_web := (su_web su)\<lparr>web_phase := WebFailed\<rparr>\<rparr>)"
| stop_waiting:
    "su_phase su = Waiting \<Longrightarrow> False \<in> set (waitReload su) \<Longrightarrow>
     sup_step lib rosf lookup su SStop (su\<lparr>su_phase := Stopped\<rparr>)"
| stop_running:
    "su_phase su = Running k \<Longrightarrow> su_term su \<Longrightarrow>
     sup_step lib rosf lookup su SStop (su\<lparr>su_phase := Stopped\<rparr>)"

text \<open>The program starts with nothing running and no signal; the traces of it, latest event
  last.\<close>

definition startSup :: "jsonlib \<Rightarrow> cfile \<Rightarrow> 's \<Rightarrow> 's sup" where
  "startSup lib f s = \<lparr>su_file = f, su_writing = [], su_owed = 0, su_pending = False, su_term = False, su_prev = None,
     su_cur = None, su_phase = Loading, su_jobs = [], su_cut = [], su_web = startWeb lib f, su_rst = s\<rparr>"

abbreviation sup_trace ::
  "jsonlib \<Rightarrow> (rconfig \<Rightarrow> 's ros) \<Rightarrow> (string \<Rightarrow> gerror + ipaddr list) \<Rightarrow> 's sup \<Rightarrow> 's sevent list \<Rightarrow> 's sup \<Rightarrow> bool" where
  "sup_trace lib rosf lookup \<equiv> trace (sup_step lib rosf lookup)"

lemmas sup_nil = trace.nil [where step = "sup_step lib rosf lookup" for lib rosf lookup]
lemmas sup_snoc = trace.snoc [where step = "sup_step lib rosf lookup" for lib rosf lookup]

section \<open>The running configuration\<close>

text \<open>What is running is what the file says: the stack of the file's configuration, or none when
  the file cannot be read.\<close>

definition settled :: "jsonlib \<Rightarrow> 's sup \<Rightarrow> bool" where
  "settled lib su \<longleftrightarrow>
     (case su_phase su of
        Running k \<Rightarrow> Load lib (su_file su) = Inr (sk_cfg k)
      | Waiting \<Rightarrow> \<exists>e. Load lib (su_file su) = Inl e
      | _ \<Rightarrow> True)"

lemma stack_tick_cfg: "stack_tick rosf lookup k s = (k', s') \<Longrightarrow> sk_cfg k' = sk_cfg k"
  by (auto simp: stack_tick_def split: prod.splits)

lemma supervise_load_settled: "supervise_load lib su = (r, su') \<Longrightarrow> settled lib su'"
  by (auto simp: supervise_load_def settled_def startStack_def Let_def split: sum.splits prod.splits)

lemma settled_step:
  assumes "sup_step lib rosf lookup su e su'" "\<forall>d n. e \<noteq> SSaveFailed d n"
    and "su_pending su \<or> su_owed su > 0 \<or> su_writing su \<noteq> [] \<or> settled lib su"
  shows "su_pending su' \<or> su_owed su' > 0 \<or> su_writing su' \<noteq> [] \<or> settled lib su'"
  using assms(1)
proof (cases rule: sup_step.cases)
  case (load r)
  then show ?thesis by (simp add: supervise_load_settled)
next
  case (tick_first k k' s)
  then show ?thesis using assms(3) stack_tick_cfg [OF tick_first(5)]
    by (auto simp: settled_def split: option.split)
next
  case (tick_next k k' s)
  then show ?thesis using assms(3) stack_tick_cfg [OF tick_next(5)] by (auto simp: settled_def)
qed (use assms(2,3) in \<open>auto simp: settled_def triggerReload_def split: phase.splits\<close>)

interpretation due: trace_inv "sup_step lib rosf lookup" "startSup lib f s" "\<lambda>e. \<forall>d n. e \<noteq> SSaveFailed d n"
    "\<lambda>_ su. su_pending su \<or> su_owed su > 0 \<or> su_writing su \<noteq> [] \<or> settled lib su" for lib rosf lookup f s
  by unfold_locales (simp add: startSup_def settled_def, rule settled_step)


definition demo_lib :: jsonlib where
  "demo_lib = \<lparr>js_parse = \<lambda>_. None, js_print = \<lambda>_. ''x''\<rparr>"


text \<open>A save that no other overlaps leaves what \<open>Write\<close> writes.\<close>

lemma save_is_Write:
  assumes "Write lib wfile f st sec = (None, f')" "\<forall>d f g. wfile d f = (True, g) \<longrightarrow> g = Content d"
    and "up su" "web_phase (su_web su) = WebServing" "su_writing su = []"
  shows "\<exists>d su1 su2. sup_step lib rosf lookup su (SOpen st sec) su1 \<and> sup_step lib rosf lookup su1 (SSave d) su2 \<and>
    su_file su2 = f' \<and> su_owed su2 = su_owed su + 1"
proof -
  let ?d = "js_print lib (settings_json (withDefaults st))"
  have v: "validateSection sec (ToConfig st) = None" and f': "f' = Content ?d"
    using assms(1,2) by (auto simp: Write_def split: option.splits prod.splits if_splits)
  let ?s1 = "su\<lparr>su_file := Content [], su_writing := su_writing su @ [?d]\<rparr>"
  have "up ?s1" "su_writing ?s1 = [] @ ?d # []" using assms(3,5) by (simp_all add: up_def)
  then have "sup_step lib rosf lookup ?s1 (SSave ?d)
      (?s1\<lparr>su_file := overwrite ?d (su_file ?s1), su_writing := [] @ [], su_owed := su_owed ?s1 + 1\<rparr>)"
    by (rule sup_step.save_done)
  with sup_step.save_open [OF assms(3,4) v, of lib rosf lookup] show ?thesis
    by (intro exI [of _ ?d] exI [of _ ?s1] exI [of _ "?s1\<lparr>su_file := overwrite ?d (su_file ?s1),
        su_writing := [] @ [], su_owed := su_owed ?s1 + 1\<rparr>"] conjI) (simp_all add: f' overwrite_def)
qed

text \<open>Two overlapping saves can leave a text that is neither: the end of the longer one stays behind
  the shorter one.\<close>

lemma overlapping_saves_tear:
  assumes "up su" "web_phase (su_web su) = WebServing" "su_writing su = []"
    and "validateSection sec (ToConfig st) = None" "validateSection sec' (ToConfig st') = None"
    and "long = js_print lib (settings_json (withDefaults st))"
    and "short = js_print lib (settings_json (withDefaults st'))" "length short < length long"
  shows "\<exists>su'. trace (sup_step lib rosf lookup) su [SOpen st sec, SOpen st' sec', SSave long, SSave short] su' \<and>
    su_file su' = Content (short @ drop (length short) long) \<and> su_file su' \<noteq> Content short"
proof -
  let ?step = "sup_step lib rosf lookup"
  let ?s1 = "su\<lparr>su_file := Content [], su_writing := [long]\<rparr>"
  let ?s2 = "?s1\<lparr>su_file := Content [], su_writing := [long, short]\<rparr>"
  let ?s3 = "?s2\<lparr>su_file := Content long, su_writing := [short], su_owed := su_owed su + 1\<rparr>"
  let ?s4 = "?s3\<lparr>su_file := Content (short @ drop (length short) long), su_writing := [], su_owed := su_owed su + 2\<rparr>"
  have u: "up ?s1" "up ?s2" "up ?s3" using assms(1) by (simp_all add: up_def)
  have 1: "?step su (SOpen st sec) ?s1"
    using sup_step.save_open [OF assms(1,2,4), of lib rosf lookup] by (simp add: assms(3,6))
  have 2: "?step ?s1 (SOpen st' sec') ?s2"
    using sup_step.save_open [OF u(1) _ assms(5), of lib rosf lookup] assms(2) by (simp add: assms(7))
  have 3: "?step ?s2 (SSave long) ?s3"
    using sup_step.save_done [OF u(2), of "[]" long "[short]" lib rosf lookup] by (simp add: overwrite_def)
  have 4: "?step ?s3 (SSave short) ?s4"
    using sup_step.save_done [OF u(3), of "[]" short "[]" lib rosf lookup] by (simp add: overwrite_def)
  have "trace ?step su [SOpen st sec, SOpen st' sec', SSave long, SSave short] ?s4"
    using sup_snoc [OF sup_snoc [OF sup_snoc [OF sup_snoc [OF sup_nil 1] 2] 3] 4] by simp
  then show ?thesis using assms(8) by (intro exI [of _ ?s4]) auto
qed

end
