(* ===== verification/Supervised_Rules.thy ===== *)
theory Supervised_Rules
  imports Supervisor
begin

text \<open>
  The firewall rules under the supervisor: whatever the order of saves, restarts, polls, clean-up
  goroutines and changes by others, a poll leaves the rules of the running configuration right,
  and the rules of an interface that is no longer configured, or of an option that is off, are
  there only while their removal is still to come.
\<close>

section \<open>Pending removals\<close>

definition option_on :: "Config \<Rightarrow> sweep \<Rightarrow> bool" where
  "option_on cfg x =
     (if x = SweepMasq then c_Masquerade cfg \<and> c_Mode cfg = ModeServer \<and> rn_Address (c_Router cfg) \<noteq> []
      else c_Divert cfg)"

text \<open>One of the goroutines has still to remove the rules \<open>x\<close> of the interface of \<open>c\<close>.\<close>

definition owes :: "cleanup list \<Rightarrow> rconfig \<Rightarrow> sweep \<Rightarrow> bool" where
  "owes js c x \<longleftrightarrow> (\<exists>(d, xs) \<in> set js. rc_Iface d = rc_Iface c \<and> rc_Address d \<noteq> [] \<and> x \<in> set xs)"

lemma owes_simps [simp]:
  "\<not> owes [] c x" "owes (js @ js') c x \<longleftrightarrow> owes js c x \<or> owes js' c x"
  "owes ((d, xs) # js) c x \<longleftrightarrow> rc_Iface d = rc_Iface c \<and> rc_Address d \<noteq> [] \<and> x \<in> set xs \<or> owes js c x"
  by (auto simp: owes_def)

lemma next_sweep_owes:
  "next_sweep js d y js' \<Longrightarrow> owes js c x \<Longrightarrow>
     owes js' c x \<or> x = y \<and> rc_Iface d = rc_Iface c \<and> rc_Address d \<noteq> []"
proof (induction rule: next_sweep.induct)
  case (other js d y js' j)
  then show ?case by (cases j) auto
qed auto

lemma startHooks_kinds: "x \<in> hook_kinds (fst (startHooks cfg r)) \<Longrightarrow> option_on cfg x"
  by (auto simp: startHooks_def Let_def hook_kinds_def option_on_def split: if_splits)

lemma startHooks_owes:
  assumes "r = buildRouterConfig cfg" "rc_Address r \<noteq> []" "rc_Iface r = rc_Iface c" "\<not> option_on cfg x"
  shows "owes (snd (startHooks cfg r)) c x"
proof -
  have a: "rn_Address (c_Router cfg) \<noteq> []" using assms(1,2) by (simp add: buildRouterConfig_def Let_def)
  show ?thesis
    using assms(2-4) a
    by (cases x) (auto simp: startHooks_def Let_def option_on_def cleanupDivert_def cleanupMasquerade_def)
qed

lemma cleanupStaleRules_owes:
  assumes "rc_Iface p = rc_Iface c" "rc_Iface c \<noteq> []" "rc_Iface r \<noteq> rc_Iface c"
    and "rc_Address p \<noteq> []" "rc_Password p \<noteq> []"
  shows "owes (cleanupStaleRules (Some p) r) c x"
  using assms by (cases x) (auto simp: cleanupStaleRules_def cleanupDivert_def cleanupMasquerade_def)

lemma fleet_rules_of_sweep:
  assumes "fleet rosf tbl" "tables_ok tbl s"
  shows "rules_of tbl c x (sweep (rosf d) d y s) =
    (if x = y \<and> rc_Iface c = rc_Iface d \<and> rc_Address d \<noteq> [] then [] else rules_of tbl c x s)"
proof (cases "rc_Address d = []")
  case True
  then show ?thesis by (simp add: sweep_no_access fleet_none [OF assms(1)])
next
  case False
  then show ?thesis by (simp add: rules_of_sweep [OF fleet_router [OF assms(1) False] assms(2)])
qed

section \<open>The running stack\<close>

definition stack_inv :: "('s \<Rightarrow> string \<Rightarrow> row list) \<Rightarrow> 's sup \<Rightarrow> stack \<Rightarrow> 's \<Rightarrow> bool" where
  "stack_inv tbl su k s \<longleftrightarrow>
     sk_rcfg k = buildRouterConfig (sk_cfg k) \<and> su_prev su = Some (sk_rcfg k) \<and>
     po_cfg (sk_poller k) = sk_rcfg k \<and>
     same_hooks (fst (startHooks (sk_cfg k) (sk_rcfg k))) (sk_hooks k) \<and> wf_hooks tbl (sk_rcfg k) (sk_hooks k) s"

definition stack_ok :: "('s \<Rightarrow> string \<Rightarrow> row list) \<Rightarrow> 's sup \<Rightarrow> bool" where
  "stack_ok tbl su \<longleftrightarrow> tables_ok tbl (su_rst su) \<and>
     (\<forall>k. su_phase su = Running k \<longrightarrow> su_cur su = Some (sk_poller k) \<and> stack_inv tbl su k (su_rst su))"

text \<open>Others do not add rules with the markers of the program.\<close>

definition outside_ok :: "('s \<Rightarrow> string \<Rightarrow> row list) \<Rightarrow> 's sevent \<Rightarrow> bool" where
  "outside_ok tbl e \<longleftrightarrow> (\<forall>s s'. e = SRouter s s' \<longrightarrow> no_rules_added tbl s s')"

lemma stack_inv_mono: "no_rules_added tbl s s' \<Longrightarrow> stack_inv tbl su k s \<Longrightarrow> stack_inv tbl su k s'"
  by (auto simp: stack_inv_def intro: wf_hooks_mono)

lemma stack_ok_mono:
  assumes "no_rules_added tbl (su_rst su) (su_rst su')" "stack_ok tbl su"
    and "su_phase su' = su_phase su" "su_prev su' = su_prev su" "su_cur su' = su_cur su"
  shows "stack_ok tbl su'"
  using assms stack_inv_mono [OF assms(1)]
  by (auto simp: stack_ok_def no_rules_added_def) (auto simp: stack_inv_def)

lemma no_rules_added_refl: "tables_ok tbl s \<Longrightarrow> no_rules_added tbl s s"
  by (simp add: no_rules_added_def)

lemma stack_tick_step:
  assumes fl: "fleet rosf tbl" and ok: "tables_ok tbl s" and k: "stack_inv tbl su k s"
  shows "\<exists>k' s'. stack_tick rosf lookup k s = (k', s') \<and> stack_inv tbl su k' s' \<and>
    sk_cfg k' = sk_cfg k \<and> sk_rcfg k' = sk_rcfg k \<and> sk_jobs k' = sk_jobs k \<and> sk_ticking k' = sk_ticking k \<and>
    touched tbl (sk_rcfg k) (hook_kinds (sk_hooks k)) s s' \<and>
    (\<forall>snap s1. fetchAPI (rosf (sk_rcfg k)) lookup (sk_rcfg k) s = (Inr snap, s1) \<longrightarrow>
       po_cur (sk_poller k') = Some snap \<and>
       rules_right tbl (sk_rcfg k) (fst (startHooks (sk_cfg k) (sk_rcfg k))) snap s')"
proof -
  from k have hk: "wf_hooks tbl (sk_rcfg k) (sk_hooks k) s" and p: "po_cfg (sk_poller k) = sk_rcfg k"
    and same: "same_hooks (fst (startHooks (sk_cfg k) (sk_rcfg k))) (sk_hooks k)"
    unfolding stack_inv_def by blast+
  obtain p' hk' s' where 1: "tick (rosf (sk_rcfg k)) lookup (onTick (rosf (sk_rcfg k)) (sk_rcfg k))
      (sk_poller k) (sk_hooks k) s = (p', hk', s')" "po_cfg p' = sk_rcfg k" "same_hooks (sk_hooks k) hk'"
    "wf_hooks tbl (sk_rcfg k) hk' s'" "touched tbl (sk_rcfg k) (hook_kinds (sk_hooks k)) s s'"
    "\<forall>snap s1. fetchAPI (rosf (sk_rcfg k)) lookup (sk_rcfg k) s = (Inr snap, s1) \<longrightarrow>
       po_cur p' = Some snap \<and> rules_right tbl (sk_rcfg k) (sk_hooks k) snap s'"
    using tick_hooks [OF fl ok hk p, of lookup] by (elim exE conjE)
  let ?k = "k\<lparr>sk_poller := p', sk_hooks := hk'\<rparr>"
  have "stack_inv tbl su ?k s'"
    using k 1(2,4) same_hooks_trans [OF same 1(3)] by (simp add: stack_inv_def)
  then show ?thesis
    using 1 same_hooks_right [OF same, of tbl "sk_rcfg k"] by (simp add: stack_tick_def)
qed

lemma stack_ok_step:
  assumes fl: "fleet rosf tbl" and out: "outside_ok tbl e" and inv: "stack_ok tbl su"
    and step: "sup_step lib rosf lookup su e su'"
  shows "stack_ok tbl su'"
proof -
  have ok: "tables_ok tbl (su_rst su)" using inv by (simp add: stack_ok_def)
  have tick: "stack_ok tbl (su\<lparr>su_rst := s, su_cur := Some (sk_poller k'), su_phase := ph\<rparr>)"
    if "su_phase su = Running k" "stack_tick rosf lookup k (su_rst su) = (k', s)"
      "ph = Running (k'\<lparr>sk_ticking := t\<rparr>) \<or> ph = Running k' \<or> ph = Crashed" for k k' s ph t
  proof -
    have "stack_inv tbl su k (su_rst su)" using inv that(1) by (simp add: stack_ok_def)
    from stack_tick_step [OF fl ok this, of lookup] that(2) have "stack_inv tbl su k' s" "tables_ok tbl s"
      by (auto simp: touched_def)
    then show ?thesis using that(3) by (auto simp: stack_ok_def stack_inv_def)
  qed
  from step show ?thesis
  proof (cases rule: sup_step.cases)
    case (load r)
    then show ?thesis using ok
      by (auto simp: supervise_load_def stack_ok_def stack_inv_def startStack_def poller_New_def Let_def
          startHooks_wf same_hooks_refl split: sum.splits prod.splits)
        (metis fst_conv startHooks_wf same_hooks_refl)+
  next
    case (tick_first k k' s)
    then show ?thesis using tick [OF tick_first(3,5), of _ True] by (auto split: option.split)
  next
    case (tick_next k k' s)
    then show ?thesis using tick [OF tick_next(3,5)] by simp
  next
    case (sweep_program c x js)
    then show ?thesis
      by (auto intro!: stack_ok_mono [OF _ inv] fleet_sweep_added [OF fl ok])
  next
    case (sweep_ended c x js)
    then show ?thesis
      by (auto intro!: stack_ok_mono [OF _ inv] fleet_sweep_added [OF fl ok])
  next
    case (sweep_stack k c x js)
    then show ?thesis using inv stack_inv_mono [OF fleet_sweep_added [OF fl ok, of c x], of su k]
        fleet_sweep_added [OF fl ok, of c x]
      by (auto simp: stack_ok_def no_rules_added_def) (auto simp: stack_inv_def)
  next
    case (router s)
    then show ?thesis using out by (auto simp: outside_ok_def intro!: stack_ok_mono [OF _ inv])
  qed (use inv in \<open>auto simp: stack_ok_def stack_inv_def triggerReload_def\<close>)
qed

interpretation stacks: trace_inv "sup_step lib rosf lookup" "startSup lib f s" "outside_ok tbl"
    "\<lambda>_ su. fleet rosf tbl \<and> tables_ok tbl s \<longrightarrow> stack_ok tbl su" for lib rosf lookup f s tbl
  by unfold_locales (simp add: startSup_def stack_ok_def, blast intro: stack_ok_step)

section \<open>Every rule is accounted for\<close>

text \<open>The rules of the interface of \<open>c\<close> are there because their removal is still to come, or
  because it is the interface of the configuration loaded last, and then, in a running stack,
  because the option is on or the stack has still to remove them.\<close>

definition accounted :: "('s \<Rightarrow> string \<Rightarrow> row list) \<Rightarrow> rconfig \<Rightarrow> sweep \<Rightarrow> 's sup \<Rightarrow> bool" where
  "accounted tbl c x su \<longleftrightarrow>
     rules_of tbl c x (su_rst su) = [] \<or> owes (su_jobs su) c x \<or>
     (\<exists>p. su_prev su = Some p \<and> rc_Iface p = rc_Iface c \<and>
        (\<forall>k. su_phase su = Running k \<longrightarrow> option_on (sk_cfg k) x \<or> owes (sk_jobs k) c x))"

text \<open>The interface is only ever loaded with an address and a password, the program is not told
  to end, and others do not add rules with the markers.\<close>

definition complete_load :: "rconfig \<Rightarrow> 's sevent \<Rightarrow> bool" where
  "complete_load c e \<longleftrightarrow>
     (\<forall>r. e = SLoad (Some r) \<longrightarrow> rc_Iface r = rc_Iface c \<longrightarrow> rc_Address r \<noteq> [] \<and> rc_Password r \<noteq> [])"

definition orphan_ok :: "('s \<Rightarrow> string \<Rightarrow> row list) \<Rightarrow> rconfig \<Rightarrow> 's sevent \<Rightarrow> bool" where
  "orphan_ok tbl c e \<longleftrightarrow> complete_load c e \<and> e \<noteq> STerm \<and> outside_ok tbl e"

definition orphan_inv :: "('s \<Rightarrow> string \<Rightarrow> row list) \<Rightarrow> rconfig \<Rightarrow> 's sup \<Rightarrow> bool" where
  "orphan_inv tbl c su \<longleftrightarrow> stack_ok tbl su \<and> \<not> su_term su \<and> (\<forall>x. accounted tbl c x su) \<and>
     (\<forall>p. su_prev su = Some p \<longrightarrow> rc_Iface p = rc_Iface c \<longrightarrow> rc_Address p \<noteq> [] \<and> rc_Password p \<noteq> [])"

text \<open>Rules that only disappear stay accounted for when the goroutines are the same.\<close>

lemma accounted_mono:
  assumes "accounted tbl c x su" "rules_of tbl c x (su_rst su) = [] \<Longrightarrow> rules_of tbl c x (su_rst su') = []"
    and "su_jobs su' = su_jobs su" "su_prev su' = su_prev su"
    and "\<And>k'. su_phase su' = Running k' \<Longrightarrow> \<exists>k. su_phase su = Running k \<and> sk_cfg k' = sk_cfg k \<and> sk_jobs k' = sk_jobs k"
  shows "accounted tbl c x su'"
  using assms unfolding accounted_def by metis

lemma load_accounted:
  assumes "supervise_load lib su = (r, su')" "\<forall>x. accounted tbl c x su" "su_phase su = Loading"
    and prev: "\<forall>p. su_prev su = Some p \<longrightarrow> rc_Iface p = rc_Iface c \<longrightarrow> rc_Address p \<noteq> [] \<and> rc_Password p \<noteq> []"
    and new: "complete_load c (SLoad r)" and c: "rc_Iface c \<noteq> []"
  shows "accounted tbl c x su'"
proof (cases "Load lib (su_file su)")
  case (Inl e)
  then have "su' = su\<lparr>su_phase := Waiting\<rparr>" using assms(1) by (simp add: supervise_load_def)
  then show ?thesis using assms(2) by (auto simp: accounted_def)
next
  case (Inr cfg)
  define n where "n = buildRouterConfig cfg"
  have r: "r = Some n" and su': "su' = su\<lparr>su_jobs := su_jobs su @ cleanupStaleRules (su_prev su) n,
      su_prev := Some n, su_cur := Some (sk_poller (startStack cfg n)), su_phase := Running (startStack cfg n)\<rparr>"
    using assms(1) Inr by (auto simp: supervise_load_def Let_def n_def)
  have k: "sk_cfg (startStack cfg n) = cfg" "sk_jobs (startStack cfg n) = snd (startHooks cfg n)"
    by (simp_all add: startStack_def split: prod.split)
  show ?thesis
  proof (cases "rc_Iface n = rc_Iface c")
    case True
    with new r have "rc_Address n \<noteq> []" by (simp add: complete_load_def)
    from startHooks_owes [OF n_def this True, of x] show ?thesis
      using True by (auto simp: accounted_def su' k)
  next
    case False
    have "owes (cleanupStaleRules (Some p) n) c x" if "su_prev su = Some p" "rc_Iface p = rc_Iface c" for p
      using prev that False c by (intro cleanupStaleRules_owes) auto
    then show ?thesis using assms(2) by (fastforce simp: accounted_def su')
  qed
qed

lemma orphan_step:
  assumes fl: "fleet rosf tbl" and c: "rc_Iface c \<noteq> []" and e: "orphan_ok tbl c e"
    and inv: "orphan_inv tbl c su" and step: "sup_step lib rosf lookup su e su'"
  shows "orphan_inv tbl c su'"
proof -
  from inv have so: "stack_ok tbl su" and nt: "\<not> su_term su" and acc: "accounted tbl c x su"
    and prev: "\<forall>p. su_prev su = Some p \<longrightarrow> rc_Iface p = rc_Iface c \<longrightarrow> rc_Address p \<noteq> [] \<and> rc_Password p \<noteq> []"
    for x by (simp_all add: orphan_inv_def)
  have ok: "tables_ok tbl (su_rst su)" using so by (simp add: stack_ok_def)
  have so': "stack_ok tbl su'" using e by (intro stack_ok_step [OF fl _ so step]) (simp add: orphan_ok_def)
  note swept = fleet_rules_of_sweep [OF fl ok]
  have tick: "accounted tbl c x (su\<lparr>su_rst := s, su_cur := p, su_phase := ph\<rparr>)"
    if k: "su_phase su = Running k" "stack_tick rosf lookup k (su_rst su) = (k', s)"
      and ph: "ph = Crashed \<or> (\<exists>k2. ph = Running k2 \<and> sk_cfg k2 = sk_cfg k \<and> sk_jobs k2 = sk_jobs k)"
    for k k' s x p ph
  proof -
    have si: "stack_inv tbl su k (su_rst su)" using so k(1) by (simp add: stack_ok_def)
    then have pr: "su_prev su = Some (sk_rcfg k)" by (simp add: stack_inv_def)
    from stack_tick_step [OF fl ok si, of lookup] k(2)
    have "touched tbl (sk_rcfg k) (hook_kinds (sk_hooks k)) (su_rst su) s" by auto
    then have "rules_of tbl c x s = rules_of tbl c x (su_rst su) \<or>
        rc_Iface c = rc_Iface (sk_rcfg k) \<and> x \<in> hook_kinds (sk_hooks k)"
      by (auto simp: touched_def)
    moreover have "hook_kinds (sk_hooks k) = hook_kinds (fst (startHooks (sk_cfg k) (sk_rcfg k)))"
      using si same_hooks_kinds [of "fst (startHooks (sk_cfg k) (sk_rcfg k))" "sk_hooks k"]
      unfolding stack_inv_def by blast
    ultimately have "rules_of tbl c x s = rules_of tbl c x (su_rst su) \<or>
        option_on (sk_cfg k) x \<and> rc_Iface (sk_rcfg k) = rc_Iface c"
      using startHooks_kinds [of x "sk_cfg k" "sk_rcfg k"] by auto
    then show ?thesis using acc [of x] ph k(1) pr by (auto simp: accounted_def)
  qed
  have tick_jobs: "sk_cfg k' = sk_cfg k \<and> sk_jobs k' = sk_jobs k"
    if "stack_tick rosf lookup k (su_rst su) = (k', s)" for k k' s
    using that by (auto simp: stack_tick_def split: prod.splits)
  have "\<not> su_term su' \<and> (\<forall>x. accounted tbl c x su') \<and>
    (\<forall>p. su_prev su' = Some p \<longrightarrow> rc_Iface p = rc_Iface c \<longrightarrow> rc_Address p \<noteq> [] \<and> rc_Password p \<noteq> [])"
    using step
  proof (cases rule: sup_step.cases)
    case (load r)
    have new: "complete_load c (SLoad r)" using e load(1) by (simp add: orphan_ok_def complete_load_def)
    have "\<not> su_term su'" "\<forall>p. su_prev su' = Some p \<longrightarrow> su_prev su = Some p \<or> r = Some p"
      using load(3) nt by (auto simp: supervise_load_def Let_def split: sum.splits)
    then show ?thesis using load_accounted [OF load(3) _ load(2) prev new c, of tbl] acc new prev
      by (auto simp: complete_load_def)
  next
    case (tick_first k k' s)
    then show ?thesis using tick [OF tick_first(3,5)] tick_jobs [OF tick_first(5)] nt prev
      by (auto split: option.split)
  next
    case (tick_next k k' s)
    then show ?thesis using tick [OF tick_next(3,5)] tick_jobs [OF tick_next(5)] nt prev by auto
  next
    case (sweep_program d y js)
    have "accounted tbl c x su'" for x
      using acc [of x] next_sweep_owes [OF sweep_program(4), of c x]
      by (auto simp: accounted_def sweep_program(2) swept)
    then show ?thesis using nt prev sweep_program(2) by simp
  next
    case (sweep_ended d y js)
    have "accounted tbl c x su'" for x using acc [of x] by (auto simp: accounted_def sweep_ended(2) swept)
    then show ?thesis using nt prev sweep_ended(2) by simp
  next
    case (sweep_stack k d y js)
    have "accounted tbl c x su'" for x
      using acc [of x] next_sweep_owes [OF sweep_stack(4), of c x] sweep_stack(3)
      by (auto simp: accounted_def sweep_stack(2) swept)
    then show ?thesis using nt prev sweep_stack(2) by simp
  next
    case (router s)
    have "no_rules_added tbl (su_rst su) s" using e router(1) by (simp add: orphan_ok_def outside_ok_def)
    then have "accounted tbl c x su'" for x
      using acc [of x] by (auto simp: accounted_def router(2) no_rules_added_def)
    then show ?thesis using nt prev router(2) by simp
  qed (use acc nt prev e in \<open>auto simp: accounted_def triggerReload_def orphan_ok_def\<close>)
  with so' show ?thesis by (simp add: orphan_inv_def)
qed

interpretation orphans: trace_inv "sup_step lib rosf lookup" "startSup lib f s" "orphan_ok tbl c"
    "\<lambda>_ su. fleet rosf tbl \<and> tables_ok tbl s \<and> rc_Iface c \<noteq> [] \<and> (\<forall>x. rules_of tbl c x s = []) \<longrightarrow> orphan_inv tbl c su"
  for lib rosf lookup f s tbl c
  by unfold_locales
    (simp add: startSup_def orphan_inv_def stack_ok_def accounted_def, blast intro: orphan_step)

section \<open>Properties\<close>



text \<open>Without the address (or the password) the rules are forgotten: a configuration that drops it
  and another that changes the interface start no clean-up of the rules the first one made.\<close>

lemma two_step_change_forgets:
  assumes "Load lib f2 = Inr c2" "rn_Address (c_Router c2) = [] \<or> rn_Password (c_Router c2) = []"
    and "rn_WGIface (c_Router c2) = rc_Iface c1" "Load lib f3 = Inr c3"
  shows "su_jobs (snd (supervise_load lib
      ((snd (supervise_load lib (su\<lparr>su_prev := Some c1, su_file := f2\<rparr>)))\<lparr>su_file := f3\<rparr>))) = su_jobs su"
  using assms
  by (auto simp: supervise_load_def Let_def cleanupStaleRules_def buildRouterConfig_def)

section \<open>An example\<close>

definition demo_fleet :: "rconfig \<Rightarrow> (string \<Rightarrow> row list) ros" where
  "demo_fleet c =
     (if rc_Address c \<noteq> [] then mem_ros
      else \<lparr>ros_print = \<lambda>_ s. (Inl (Msg []), s), ros_add = \<lambda>_ _ s. (Inl (Msg []), s),
        ros_set = \<lambda>_ _ _ s. (Inl (Msg []), s), ros_remove = \<lambda>_ _ s. (Inl (Msg []), s)\<rparr>)"

lemma demo_fleet_ok: "fleet demo_fleet (\<lambda>s. s)"
  by (simp add: fleet_def demo_fleet_def mem_router no_access_def)

definition demo_run_settings :: Settings where
  "demo_run_settings = zeroSettings\<lparr>st_Server := zeroServer\<lparr>sv_ContainerAddr := ''1.2.3.4'', sv_Divert := True,
     sv_Router := zeroRouter\<lparr>rs_Address := ''r'', rs_Password := ''p'', rs_WGIface := ''wg1''\<rparr>\<rparr>\<rparr>"

definition demo_run_lib :: jsonlib where
  "demo_run_lib = \<lparr>js_parse = \<lambda>_. Some (settings_json demo_run_settings), js_print = \<lambda>_. ''x''\<rparr>"

definition demo_run_cfg :: Config where "demo_run_cfg = ToConfig demo_run_settings"

definition demo_run_rcfg :: rconfig where "demo_run_rcfg = buildRouterConfig demo_run_cfg"

text \<open>A router with one WireGuard interface.\<close>

definition demo_net :: "string \<Rightarrow> row list" where
  "demo_net = (\<lambda>_. [])(''/interface/wireguard'' :=
     [[(''.id'', ''*1''), (''name'', ''wg1''), (''public-key'', b64_encode zero32)]])"

lemma demo_run_Load: "Load demo_run_lib (Content ''x'') = Inr demo_run_cfg"
proof -
  have "TrimSpace ''x'' \<noteq> []" by (subst TrimSpace_plain) (auto simp: plain_char_def)
  moreover have "settings_of_json (settings_json demo_run_settings) = Some demo_run_settings"
    by (rule settings_dec) (simp add: demo_run_settings_def ints_ok_defs zeroSettings_def zeroServer_def zeroClient_def
        zeroObfuscation_def zeroRouter_def)
  ultimately show ?thesis by (simp add: Load_def readRaw_def demo_run_lib_def demo_run_cfg_def)
qed

lemma demo_run_cfg_simps:
  "c_Mode demo_run_cfg = ModeServer" "c_Divert demo_run_cfg" "c_ContainerAddr demo_run_cfg = ''1.2.3.4''"
  "c_ContainerAddr6 demo_run_cfg = []" "c_Listen demo_run_cfg = '':51820''" "c_PublicEndpoint demo_run_cfg = []"
  "\<not> c_Masquerade demo_run_cfg" "rc_Address demo_run_rcfg = ''r''" "rc_Password demo_run_rcfg = ''p''"
  "rc_Iface demo_run_rcfg = ''wg1''" "rc_Mode demo_run_rcfg = ModeServer" "rn_Address (c_Router demo_run_cfg) = ''r''"
  by (simp_all add: demo_run_rcfg_def demo_run_cfg_def buildRouterConfig_def ToConfig_def withDefaults_def
      demo_run_settings_def zeroSettings_def zeroServer_def zeroRouter_def or_str_def defMode_def ModeServer_def
      ModeClient_def fillServer_def routerConn_def defaultRouter_def newConfig_def fillObfuscation_def Let_def defListen_def)

text \<open>The rule of the example.\<close>

definition demo_want :: DivertRule where
  "demo_want = \<lparr>dr_Chain = ChainDstNat, dr_SrcPort = 0, dr_DstAddress = IPNone, dr_DstPort = 51820,
     dr_ToAddress = IP4 1 2 3 4, dr_ToPort = 51820\<rparr>"

lemma demo_want_valid: "Router_Nat.validate demo_want = None"
  by (simp add: demo_want_def Router_Nat.validate_def validate_to_def bad_port_def ChainDstNat_def ChainOutput_def)

lemma demo_run_hooks:
  "\<exists>h. hk_server (fst (startHooks demo_run_cfg demo_run_rcfg)) = Some h \<and> sh_want h = demo_want"
proof -
  have "ParseAddr ''1.2.3.4'' = Some (IP4 1 2 3 4)"
    by (simp add: ParseAddr_def parse_ipv4_def digit_val_def)
  moreover have "portFromListen '':51820'' = Some 51820"
    by (simp add: portFromListen_def SplitHostPort_def last_index_byte_def Atoi_def digit_val_def)
  ultimately show ?thesis
    by (simp add: startHooks_def Let_def demo_run_cfg_simps makeServerDivertHook_def demo_want_def)
qed

lemma demo_net_ok: "tables_ok (\<lambda>s. s) demo_net" "rules_of (\<lambda>s. s) c x demo_net = []"
  by (simp_all add: tables_ok_def demo_net_def ids_distinct_def rules_of_def sweep_path_def path_of_def)

lemma demo_fetch: "\<exists>snap s1. fetchAPI (demo_fleet demo_run_rcfg) lookup demo_run_rcfg demo_net = (Inr snap, s1)"
proof -
  have "parsePubKey (b64_encode zero32) = Inr zero32" by (rule parsePubKey_encode) (simp add: zero32_def)
  then show ?thesis
    by (simp add: demo_fleet_def demo_run_cfg_simps fetchAPI_def mem_ros_def demo_net_def fld_def ModeServer_def ModeClient_def)
qed

lemma demo_run:
  fixes lookup :: "string \<Rightarrow> gerror + ipaddr list"
  defines "k \<equiv> startStack demo_run_cfg demo_run_rcfg"
  shows "\<exists>su su'. sup_trace demo_run_lib demo_fleet lookup (startSup demo_run_lib (Content ''x'') demo_net)
      [SLoad (Some demo_run_rcfg)] su \<and> su_phase su = Running k \<and> su_rst su = demo_net \<and>
    sup_step demo_run_lib demo_fleet lookup su STick su'"
proof -
  let ?s0 = "startSup demo_run_lib (Content ''x'') demo_net"
  obtain su where su: "supervise_load demo_run_lib ?s0 = (Some demo_run_rcfg, su)" "su_phase su = Running k"
    "su_rst su = demo_net"
    using demo_run_Load by (simp add: supervise_load_def startSup_def Let_def k_def demo_run_rcfg_def)
  have "sup_step demo_run_lib demo_fleet lookup ?s0 (SLoad (Some demo_run_rcfg)) su"
    by (rule sup_step.load [OF _ su(1)]) (simp add: startSup_def)
  note tr = sup_snoc [OF sup_nil this]
  obtain k' s where "stack_tick demo_fleet lookup k (su_rst su) = (k', s)" by fastforce
  note tick = sup_step.tick_first [OF su(2) _ this]
  have "\<not> sk_ticking k" by (simp add: k_def startStack_def split: prod.split)
  from tick [OF this] tr su show ?thesis by auto
qed

lemma demo_stack: "sk_cfg (startStack c r) = c" "sk_rcfg (startStack c r) = r"
  by (simp_all add: startStack_def split: prod.split)


lemma demo_tick:
  assumes "sup_trace demo_run_lib demo_fleet lookup (startSup demo_run_lib (Content ''x'') demo_net)
      [SLoad (Some demo_run_rcfg)] su" "su_phase su = Running (startStack demo_run_cfg demo_run_rcfg)"
    "su_rst su = demo_net" "sup_step demo_run_lib demo_fleet lookup su STick su'"
  shows "rules_of (\<lambda>s. s) demo_run_rcfg Sweep4 (su_rst su') \<noteq> []"
proof -
  let ?k = "startStack demo_run_cfg demo_run_rcfg"
  have "stack_ok (\<lambda>s. s) su"
    using stacks.holds [OF assms(1), of "\<lambda>s. s"] demo_fleet_ok demo_net_ok(1) by (auto simp: outside_ok_def)
  then have si: "stack_inv (\<lambda>s. s) su ?k demo_net" using assms(2,3) by (simp add: stack_ok_def)
  obtain k' where 1: "stack_tick demo_fleet lookup ?k demo_net = (k', su_rst su')"
    using assms(4) by (cases rule: sup_step.cases) (use assms(2,3) in auto)
  obtain snap s1 where f: "fetchAPI (demo_fleet demo_run_rcfg) lookup demo_run_rcfg demo_net = (Inr snap, s1)"
    using demo_fetch by blast
  obtain h where h: "hk_server (fst (startHooks demo_run_cfg demo_run_rcfg)) = Some h" "sh_want h = demo_want"
    using demo_run_hooks by blast
  have "rules_right (\<lambda>s. s) demo_run_rcfg (fst (startHooks demo_run_cfg demo_run_rcfg)) snap (su_rst su')"
    using stack_tick_step [OF demo_fleet_ok demo_net_ok(1) si, of lookup] 1 f by (auto simp: demo_stack)
  then show ?thesis
    using h demo_want_valid by (auto simp: rules_right_def served_def one_rule_def)
qed


end
