(* ===== verification/Spec2Isabelle.thy ===== *)
theory Spec2Isabelle
  imports Session_Service Server_Keys Client_System Api_Server Supervised_Rules
begin

text \<open>
  A verification development for \<open>awg-proxy-go\<close>: a proxy that lets plain WireGuard speak to
  AmneziaWG (obfuscated WireGuard) peers, with a web interface and a poller that manages a
  MikroTik router over its binary API. All paths are under \<open>src/\<close>.

  \<^bold>\<open>The program and its parts.\<close> The process runs a supervisor (\<open>cmd/awgproxy/main.go\<close>) that loads
  the configuration (\<open>internal/config\<close>) and starts a stack for it: a poller
  (\<open>internal/router/poller.go\<close>, \<open>api.go\<close>) that reads interface and peers from the router into a
  snapshot and drives the firewall reconcilers (\<open>nat.go\<close>) after every poll, and a proxy
  (\<open>internal/proxy\<close>) that reads the last snapshot for every packet. In server mode the proxy
  deobfuscates clients' packets (\<open>internal/awg\<close>) for the WireGuard server and routes replies
  back through a session table; in client mode it obfuscates the router's packets for an
  upstream. The web interface (\<open>internal/api\<close>) writes the configuration and signals the supervisor,
  and manages peers on the router (\<open>peers.go\<close>, \<open>iface.go\<close>). The router is reached through
  \<open>internal/router/binapi\<close>.

  \<^bold>\<open>Theories.\<close>
  \<^item> \<open>Prelude\<close>: bytes, 32-bit words, the panic monad (\<open>None\<close> is a Go panic), slices with their
    capacity, 64-bit \<open>int\<close> arithmetic. \<open>Traces\<close>: executions of labelled transition systems and
    the interface \<open>trace_inv\<close>, the rule for their invariants.
  \<^item> \<open>Go_Strings\<close>, \<open>Base64\<close>, \<open>Netip\<close>: what the program uses of Go's \<open>strings\<close>, \<open>strconv\<close>, \<open>net\<close>,
    \<open>encoding/base64\<close> and \<open>net/netip\<close>.
  \<^item> \<open>Wg_Message\<close> (\<open>wg/message.go\<close>), \<open>Awg_Transform\<close> (\<open>awg/mac.go\<close>, \<open>transform.go\<close>), \<open>Awg_Identify\<close>
    (\<open>awg/identify.go\<close>): the wire format. The lemmas bring every operation on slices into the
    normal form \<open>gs bytes rest\<close> (collection \<open>gs_simps\<close>), over which the reference transformation
    \<open>obf_msg\<close>/\<open>remac\<close> is stated.
  \<^item> \<open>Proxy_Sessions\<close> (\<open>proxy/sessions.go\<close>): the table as an explicit store of session objects,
    since its two maps alias them; interface \<open>session_table\<close>. \<open>Session_Service\<close>: the abstract
    service the table implements and the refinement.
  \<^item> \<open>Proxy_Server\<close> (\<open>proxy/proxy.go\<close>, \<open>server.go\<close>, \<open>gcLoop\<close>): receive loops, collection and
    snapshots as the transition system \<open>srv_step\<close>; each call on the table and each send is a step
    of its own, so the loops interleave as goroutines do. \<open>Server_Keys\<close>: for which keys such a run
    signs replies. \<open>Proxy_Client\<close> (\<open>proxy/client.go\<close>): the handling of one datagram
    (\<open>client_step\<close>); \<open>Client_System\<close>: the two loops as the transition system \<open>cli_step\<close>, a step for
    every read of what they share and for every send, of which a \<open>client_step\<close> is one execution.
  \<^item> \<open>Binapi_Codec\<close>, \<open>Binapi_Client\<close> (\<open>router/binapi\<close>): words, sentences, login, the dialer with its
    retry; interface \<open>prefix_code\<close> (what is written is read back and the rest left).
  \<^item> \<open>Router_Api\<close> (\<open>router/api.go\<close>, helpers and the cache of dialers), \<open>Router_Nat\<close> (\<open>nat.go\<close>;
    interface \<open>rule_diff\<close> of the two reconcilers), \<open>Router_Poller\<close> (\<open>poller.go\<close>, \<open>fetchAPI\<close>,
    \<open>keys.go\<close>), \<open>Router_Peers\<close> (\<open>peers.go\<close>, \<open>iface.go\<close>).
  \<^item> \<open>Config\<close> (\<open>config/config.go\<close>): settings, defaults, validation, the JSON trees and the file;
    interface \<open>struct_codec\<close> of every struct that is encoded, collection \<open>dec\<close>.
  \<^item> \<open>Divert_Hooks\<close> (\<open>main.go\<close>): the hooks after a poll, and the clean-ups as lists of removals.
    \<open>Stack_Rules\<close>: what one poll with its hooks leaves on the router. \<open>Supervisor\<close> (\<open>main.go\<close>): the
    supervisor, the reload signal, the poller's loop, the clean-up goroutines, the saves of the web
    interface and changes of the router by others as \<open>sup_step\<close>. \<open>Supervised_Rules\<close>: the rules on
    the router along such a run. This root theory joins the supervisor with the web interface
    (\<open>saved_settings_run\<close>, \<open>saving_opens_the_gate\<close>).
  \<^item> \<open>Api_Auth\<close> (\<open>api/auth.go\<close>), \<open>Api_Config\<close> (\<open>peerconfig.go\<close>, \<open>netauto.go\<close>), \<open>Api_Server\<close>
    (\<open>server.go\<close>): every handler, the gate in front of them and the routing.

  \<^bold>\<open>What the properties show.\<close> The obfuscation is the reference transformation and is undone
  exactly, through both proxies and in both directions; nothing else passes. A reply reaches the
  address that last registered its index, under every interleaving, and the table refines the
  abstract service between collections. The server-mode proxy does not panic under stated size
  conditions; the client-mode proxy panics exactly on short packets of the router side, and sends
  nothing but what it transformed, to where it should. Replies are signed only for keys proved by an
  initiation of that address or configured as candidates. The
  reconcilers converge to exactly the wanted rules, repeat without writing and leave the rules of
  other instances alone; in every state the supervised program reaches, a poll leaves exactly the
  rules of the running configuration, and as long as the loaded configurations name the router no rule
  of an earlier one is forgotten. Calls on the router end, return exactly what the router answered and never
  read a stale reply. Behind the gate nothing runs without a session of a login the router
  accepted; the limiter locks as documented. Settings survive the file, a saved configuration is
  either running or due, what the web interface saved is what the
  next start of the stack runs, and the configuration rendered for a client is the one the server
  runs.

  \<^bold>\<open>Parameters.\<close> Code outside the repository is an argument: BLAKE2s, X25519, ChaCha20-Poly1305 and the
  random source (\<open>xcrypto\<close>, functions \<open>rnd\<close>, \<open>intN\<close>; used facts: \<open>mac_sized\<close>, a MAC has 16 bytes, and
  \<open>aead_inverse\<close>), sockets (\<open>netlib\<close>, \<open>env\<close>), TCP/TLS (\<open>transport\<close>), the DNS resolver (\<open>lookup\<close>), the
  text form of JSON (\<open>jsonlib\<close>), the file system (\<open>wfile\<close>), the host of the web server (\<open>wenv\<close>). The
  commands on a router are a record \<open>ros\<close>: \<open>binapi_ros\<close> is the program's own, over the binary API;
  \<open>table_router\<close> states RouterOS' documented behaviour of print, add, set and remove, and
  \<open>mem_ros\<close> is a router with it.

  \<^bold>\<open>Bounds and conventions.\<close> \<open>int\<close> is 64 bits wide and wraps (\<open>wrap64\<close>). UDP buffers have \<open>maxPacket\<close>
  (65535) bytes and are reused; a slice can be resliced up to its capacity, and where the code
  does so the model reads what the packet before left. \<open>room_ok\<close> asks for prefixes that are not
  negative and \<open>S1\<close> of at most 65527, so that eight bytes of the buffer lie behind it. Times are
  nanoseconds and arguments. No fuel is used: parsing loops end by the length of their input, the
  loops of the program that do not end are steps. Go's map order is unspecified: where the
  code walks a map the order is an argument or proved irrelevant (\<open>gc_any_order\<close>,
  \<open>resolve_order_independent\<close>).

  \<^bold>\<open>Simplifications.\<close> Methods under a mutex are one step. The proxy may go on collecting after
  its context is done. A poll with its hooks is one step and a removal of a clean-up is one step; all
  addressed configurations are taken to reach the same router (\<open>fleet\<close>). A save is two steps for the
  supervisor, the opening that empties the file and the writing; for the handlers of the web
  interface it is one. \<open>Load\<close> reads the file in one step, but it can read one that is being written.
  The proxies and the supervisor are separate systems, joined by the snapshot. The deadlines of the router connection are part of what the
  transport returns. Log lines are left out; error values keep their class and the text that is
  formed from data, not the wrapped chain.

  \<^bold>\<open>Not modelled.\<close> The registration of the signal handler and the set-up of the log in \<open>main.go\<close>
  (a signal is the step \<open>STerm\<close>); the parts of \<open>net/http\<close> around the handlers (path clean-up of
  \<open>ServeMux\<close>, file server, header encoding), the QR encoder; \<open>internal/buildinfo\<close> (strings the
  linker sets); the page (\<open>internal/api/web\<close>, JavaScript), build and deployment files.

  \<^bold>\<open>What modelling showed.\<close> The theorems and lemmas named here are about the code as it is.
  \<open>rehandshake_leaks_index\<close>, \<open>gc_drops_reassigned_index\<close>: collection deletes only the index a session
  carries now, and without checking that it still owns it. \<open>short_init_steals_index\<close>: the sender
  index of a truncated initiation is read from the previous packet. \<open>client_panics\<close>: a
  short packet of the router side ends the process. \<open>negative_ttl_crashes\<close>: a negative TTL passes
  validation and panics. \<open>negative_prefix_panics\<close>: so does a negative prefix. \<open>UpdatePeer_replaces\<close>: a
  partial update clears the other fields. \<open>trap_is_retried\<close>: a refused command is repeated.
  \<open>ipv6_router_address_not_dialable\<close>; \<open>server_Run_leaks_listener\<close>; \<open>logins_in_parallel\<close>;
  \<open>safeNext_backslash\<close>. \<open>saving_opens_the_gate\<close>: while a save is under way no login is asked for.
  \<open>overlapping_saves_tear\<close>: two saves at a time can leave a file that is neither. \<open>two_step_change_forgets\<close>:
  rules of an old
  configuration stay when one save drops the router's address and the next changes the interface.
\<close>

section \<open>From the web page to the running stack\<close>

text \<open>A \<open>PUT /api/config\<close> answered with 200 has passed the gate and written the file.\<close>

lemma put_saved:
  assumes "endpoint_of r = PutConfig" "handle en r w = (resp, w')" "rp_code resp = 200"
  obtains st where "decode settings_of_json r = Some st"
    "Write (we_lib en) (we_wfile en) (wb_file w) st (rq_section r) = (None, wb_file w')"
    "wb_saved w' = wb_saved w + 1"
proof -
  obtain ok w1 where p: "permitted en r w = (ok, w1)" by force
  then have same: "same_data w w1" by (cases rule: permitted_cases) simp_all
  have "handle en r w = protect putConfig en r w" using assms(1) by (simp add: handle_def)
  with assms(2,3) p have put: "putConfig en r w1 = (resp, w')"
    by (cases ok) (auto simp: protect_def fail_def respond_def)
  show thesis
  proof (cases "decode settings_of_json r")
    case None
    with put assms(3) show ?thesis by (auto simp: putConfig_def fail_def respond_def)
  next
    case (Some st)
    obtain e f where w: "Write (we_lib en) (we_wfile en) (wb_file w1) st (rq_section r) = (e, f)" by force
    with put Some assms(3) have "e = None" "w' = w1\<lparr>wb_file := f, wb_saved := wb_saved w1 + 1\<rparr>"
      by (auto simp: putConfig_def fail_def respond_def split: option.splits)
    with w same Some show ?thesis by (intro that [of st]) (simp_all add: same_data_def)
  qed
qed


text \<open>A save of the router section through a server that asks for no login.\<close>

definition put_request :: request where
  "put_request = (demo_request ''PUT'' [''api'', ''config''])
     \<lparr>rq_body := Some (settings_json demo_file), rq_section := SectionRouter\<rparr>"

definition open_env :: "bytes list wenv" where
  "open_env = demo_env_web\<lparr>we_noauth := ''1''\<rparr>"

lemma demo_file_valid: "validateSection SectionRouter (ToConfig demo_file) = None"
  by (simp add: demo_file_def) (simp add: validateSection_def validateRouter_def ToConfig_def withDefaults_def
      demo_settings_def zeroSettings_def zeroServer_def or_str_def defMode_def ModeServer_def ModeClient_def
      fillServer_def routerConn_def defaultRouter_def)

lemma put_facts:
  "decode settings_of_json put_request = Some demo_file" (is ?d)
  "endpoint_of put_request = PutConfig" (is ?ep)
  "handle open_env put_request demo_web = (writeJSON 200 (status_json ''saved''),
     demo_web\<lparr>wb_file := Content ''x'', wb_saved := 1\<rparr>)" (is ?h)
proof -
  show d: ?d
    using settings_dec [OF ints_ok_withDefaults, of demo_settings]
    by (simp add: decode_def put_request_def demo_file_def ints_ok_defs demo_settings_def zeroSettings_def
        zeroServer_def zeroClient_def zeroObfuscation_def zeroRouter_def)
  show ep: ?ep
    by (simp add: endpoint_of_def patterns_def put_request_def demo_request_def Let_def)
  have wr: "Write (we_lib open_env) (we_wfile open_env) (wb_file demo_web) demo_file SectionRouter = (None, Content ''x'')"
    using demo_file_valid by (simp add: Write_def open_env_def demo_env_web_def)
  have "permitted open_env put_request demo_web = (True, demo_web)"
    by (simp add: permitted_def authRequired_def open_env_def)
  then show ?h
    using wr by (simp add: handle_def ep protect_def putConfig_def d)
      (simp add: put_request_def demo_web_def newWeb_def)
qed


section \<open>The gate while the file is written\<close>

text \<open>An empty file is a configuration without a router, which asks for no login.\<close>

lemma empty_file_open:
  assumes "wb_file w = Content []"
  shows "permitted en r w = (True, w)"
proof -
  have "Read (we_lib en) (Content []) = Inr (withDefaults zeroSettings)"
    by (simp add: Read_def readRaw_def)
  moreover have "rs_Address (ActiveRouter (withDefaults zeroSettings)) = []"
    by (simp add: withDefaults_def ActiveRouter_def Let_def zeroSettings_def zeroServer_def zeroClient_def
        zeroRouter_def defaultRouter_def or_str_def)
  ultimately show ?thesis using assms by (simp add: permitted_def authRequired_def)
qed

text \<open>
  C17. The gate is open while a save is under way: \<open>Write\<close> empties the file before it writes it, and
  a request that is checked in between finds no router in it and passes without a session,
  whatever it asks for and whatever the settings were before and will be.
\<close>

theorem saving_opens_the_gate:
  assumes "sup_step (we_lib en) rosf lookup su (SOpen st sec) su1" "wb_file w = su_file su1"
  shows "permitted en r w = (True, w) \<and> protect h en r w = h en r w"
proof -
  have "su_file su1 = Content []" using assms(1) by (cases rule: sup_step.cases) simp_all
  then have "permitted en r w = (True, w)" using assms(2) by (simp add: empty_file_open)
  then show ?thesis by (simp add: protect_def)
qed

text \<open>A request that is asked to log in before the save reads the configuration during it.\<close>

theorem saving_opens_the_gate_witness:
  "\<exists>su1. sup_step (we_lib demo_env_web) (\<lambda>_. mem_ros) (\<lambda>_. Inr [])
       ((startSup (we_lib demo_env_web) (wb_file demo_web) (\<lambda>_. []) :: (string \<Rightarrow> row list) sup)\<lparr>su_web :=
          \<lparr>web_Addr = [], web_phase = WebServing\<rparr>\<rparr>) (SOpen demo_file SectionRouter) su1 \<and>
     fst (authRequired demo_env_web demo_web) \<and>
     protect getConfig demo_env_web (demo_request ''GET'' [''api'', ''config'']) (demo_web\<lparr>wb_file := su_file su1\<rparr>) =
       getConfig demo_env_web (demo_request ''GET'' [''api'', ''config'']) (demo_web\<lparr>wb_file := su_file su1\<rparr>)"
proof -
  let ?su = "(startSup (we_lib demo_env_web) (wb_file demo_web) (\<lambda>_. []) :: (string \<Rightarrow> row list) sup)\<lparr>su_web :=
      \<lparr>web_Addr = [], web_phase = WebServing\<rparr>\<rparr>"
  have "up ?su" "web_phase (su_web ?su) = WebServing" by (simp_all add: up_def startSup_def)
  from sup_step.save_open [OF this demo_file_valid, of "we_lib demo_env_web" "\<lambda>_. mem_ros" "\<lambda>_. Inr []"]
  obtain su1 where s: "sup_step (we_lib demo_env_web) (\<lambda>_. mem_ros) (\<lambda>_. Inr []) ?su
      (SOpen demo_file SectionRouter) su1" by blast
  have "fst (authRequired demo_env_web demo_web)" using demo_authRequired by (metis fst_conv)
  with s saving_opens_the_gate [OF s, of "demo_web\<lparr>wb_file := su_file su1\<rparr>"
        "demo_request ''GET'' [''api'', ''config'']" getConfig] show ?thesis
    by (intro exI [of _ su1]) simp
qed

end
